theory Spec2Isabelle
  imports Complex_Main "HOL-Library.Extended_Nat" "HOL-Library.Multiset" "HOL-Library.Sublist"
begin

section \<open>The mask-history cache: a bounded deque\<close>

text \<open>
  \<^verbatim>\<open>processing_pipeline.py\<close> keeps the masks of the preceding layers in a
  \<^verbatim>\<open>collections.deque(maxlen=receding_layers)\<close> (line 144) and advances it with
  \<^verbatim>\<open>append\<close> (line 187). A deque is its optional bound and its items, oldest first.
  \<^verbatim>\<open>append\<close> on a bounded deque adds the item on the right and, when the bound is
  then exceeded, removes one item on the left.
\<close>

record 'm deque =
  maxlen :: "nat option"
  items :: "'m list"

definition deque_new :: "nat \<Rightarrow> 'm deque" where
  "deque_new n = \<lparr>maxlen = Some n, items = []\<rparr>"

text \<open>\<^verbatim>\<open>collections.deque(iterable)\<close>: a new, unbounded deque holding the iterable's items.\<close>

definition deque_copy :: "'m deque \<Rightarrow> 'm deque" where
  "deque_copy d = \<lparr>maxlen = None, items = items d\<rparr>"

definition popleft :: "'m list \<Rightarrow> 'm list" where
  "popleft xs = (case xs of [] \<Rightarrow> [] | _ # ys \<Rightarrow> ys)"

definition deque_append :: "'m deque \<Rightarrow> 'm \<Rightarrow> 'm deque" where
  "deque_append d x =
     (let ys = items d @ [x] in
      case maxlen d of
        None \<Rightarrow> d\<lparr>items := ys\<rparr>
      | Some n \<Rightarrow> if n < length ys then d\<lparr>items := popleft ys\<rparr> else d\<lparr>items := ys\<rparr>)"

text \<open>The cache after a sequence of pushes, starting from the empty cache of capacity \<open>n\<close>.\<close>

definition pushes :: "nat \<Rightarrow> 'm list \<Rightarrow> 'm deque" where
  "pushes n xs = foldl deque_append (deque_new n) xs"

section \<open>The slice editor's project: edits, undo and redo\<close>

text \<open>
  \<^verbatim>\<open>project.py\<close>. The three edit commands are dataclasses, so two commands are equal
  when they are of the same class with equal fields; \<^verbatim>\<open>list.remove\<close> removes the first
  equal item and raises \<^verbatim>\<open>ValueError\<close> when there is none.
\<close>

datatype edit_command =
  DrawRectangleCommand int int int int int int
| DrawTextCommand int string "int \<times> int" real int int
| DrawGradientCommand int int int int int int int string

fun get_affected_layer :: "edit_command \<Rightarrow> int" where
  "get_affected_layer (DrawRectangleCommand layer_index x y width height color) = layer_index"
| "get_affected_layer (DrawTextCommand layer_index txt position font_scale color thickness) =
     layer_index"
| "get_affected_layer
     (DrawGradientCommand layer_index x y width height start_color end_color gradient_type) =
     layer_index"

record project =
  source_file_path :: string
  layer_image_paths :: "string list"
  edits :: "int \<rightharpoonup> edit_command list"
  undo_stack :: "edit_command list"
  redo_stack :: "edit_command list"




text \<open>\<^verbatim>\<open>remove1\<close> leaves a list without the item as it is: the \<^verbatim>\<open>ValueError\<close> is passed over.\<close>

definition find_and_remove_command :: "project \<Rightarrow> edit_command \<Rightarrow> project" where
  "find_and_remove_command p command_to_remove =
     (let layer_index = get_affected_layer command_to_remove in
      case edits p layer_index of
        None \<Rightarrow> p
      | Some es \<Rightarrow> p\<lparr>edits := (edits p)(layer_index \<mapsto> remove1 command_to_remove es)\<rparr>)"

definition perform_undo :: "project \<Rightarrow> edit_command option \<times> project" where
  "perform_undo p =
     (if undo_stack p = [] then (None, p)
      else
        let command = last (undo_stack p);
            p1 = p\<lparr>undo_stack := butlast (undo_stack p)\<rparr>;
            p2 = find_and_remove_command p1 command;
            p3 = p2\<lparr>redo_stack := redo_stack p2 @ [command]\<rparr>
        in (Some command, p3))"




section \<open>Layer files: the numeric index, sorting and the index range\<close>

text \<open>
  \<^verbatim>\<open>ProcessingPipelineThread.run\<close>, lines 109 to 137. File names are strings of ASCII
  characters. \<^verbatim>\<open>\d\<close> is a decimal digit, \<^verbatim>\<open>\w\<close> a letter, a digit or the underscore.
\<close>

definition is_digit :: "char \<Rightarrow> bool" where
  "is_digit c = (c \<in> set ''0123456789'')"

definition is_word :: "char \<Rightarrow> bool" where
  "is_word c =
     (c \<in> set ''abcdefghijklmnopqrstuvwxyzABCDEFGHIJKLMNOPQRSTUVWXYZ0123456789_'')"

definition digit_value :: "char \<Rightarrow> nat" where
  "digit_value c = of_char c - 48"

text \<open>\<^verbatim>\<open>int(s)\<close> on a string of decimal digits.\<close>

definition int_of_digits :: "string \<Rightarrow> nat" where
  "int_of_digits ds = foldl (\<lambda>a c. 10 * a + digit_value c) 0 ds"

text \<open>
  The pattern \<^verbatim>\<open>(\d+)\.\w+$\<close> matched at the start of a string; the result is group 1.
  Both repetitions are greedy, and giving back a character never helps: after fewer
  digits the next character is a digit, not the dot, and after fewer word characters the
  next character is a word character, not the end. \<^verbatim>\<open>$\<close> matches at the end of the
  string and before a newline that ends it.
\<close>

definition match_here :: "string \<Rightarrow> string option" where
  "match_here s =
     (let ds = takeWhile is_digit s; rest = dropWhile is_digit s in
      if ds = [] then None
      else case rest of
        [] \<Rightarrow> None
      | c # ext \<Rightarrow>
          if c \<noteq> CHR ''.'' then None
          else let ws = takeWhile is_word ext; after = dropWhile is_word ext in
            if ws \<noteq> [] \<and> (after = [] \<or> after = [CHR 0x0A]) then Some ds else None)"

text \<open>\<^verbatim>\<open>numeric_pattern.search\<close>: the match at the leftmost position that has one.\<close>

fun search :: "string \<Rightarrow> string option" where
  "search [] = match_here []"
| "search (c # cs) =
     (case match_here (c # cs) of Some ds \<Rightarrow> Some ds | None \<Rightarrow> search cs)"

text \<open>\<^verbatim>\<open>float('inf')\<close> is \<open>\<infinity>\<close>: it is above every integer.\<close>

definition get_numeric_part :: "string \<Rightarrow> enat" where
  "get_numeric_part filename =
     (case search filename of Some ds \<Rightarrow> enat (int_of_digits ds) | None \<Rightarrow> \<infinity>)"

definition lower_char :: "char \<Rightarrow> char" where
  "lower_char c =
     (if c \<in> set ''ABCDEFGHIJKLMNOPQRSTUVWXYZ'' then char_of (of_char c + (32::nat)) else c)"

definition lower :: "string \<Rightarrow> string" where
  "lower s = map lower_char s"

definition endswith :: "string \<Rightarrow> string \<Rightarrow> bool" where
  "endswith s suf = (length suf \<le> length s \<and> drop (length s - length suf) s = suf)"

definition is_image_file :: "string \<Rightarrow> bool" where
  "is_image_file f =
     (endswith (lower f) ''.png'' \<or> endswith (lower f) ''.bmp'' \<or>
      endswith (lower f) ''.tif'' \<or> endswith (lower f) ''.tiff'')"

text \<open>
  Line 125: the image files of the directory listing, sorted by their numeric part.
  \<^verbatim>\<open>sorted\<close> is stable, as \<^const>\<open>sort_key\<close> is.
\<close>

definition all_image_filenames :: "string list \<Rightarrow> string list" where
  "all_image_filenames listing = sort_key get_numeric_part (filter is_image_file listing)"

text \<open>Python's comparison of the numeric part, an integer or infinity, with an integer.\<close>

definition numeric_less :: "enat \<Rightarrow> int \<Rightarrow> bool" where
  "numeric_less numeric_part k = (case numeric_part of enat n \<Rightarrow> int n < k | \<infinity> \<Rightarrow> False)"

definition numeric_greater :: "enat \<Rightarrow> int \<Rightarrow> bool" where
  "numeric_greater numeric_part k = (case numeric_part of enat n \<Rightarrow> k < int n | \<infinity> \<Rightarrow> True)"

text \<open>Lines 130 to 137: a file is left out by either \<^verbatim>\<open>continue\<close>, and kept otherwise.\<close>

definition in_index_range :: "int option \<Rightarrow> int option \<Rightarrow> string \<Rightarrow> bool" where
  "in_index_range start_index stop_index f =
     (let numeric_part = get_numeric_part f in
      if start_index \<noteq> None \<and> numeric_less numeric_part (the start_index) then False
      else if stop_index \<noteq> None \<and> numeric_greater numeric_part (the stop_index) then False
      else True)"

definition image_filenames_filtered :: "int option \<Rightarrow> int option \<Rightarrow> string list \<Rightarrow> string list" where
  "image_filenames_filtered start_index stop_index listing =
     filter (in_index_range start_index stop_index) (all_image_filenames listing)"

text \<open>A directory listing of 31 layer files, indexed 0 to 30, in no particular order.\<close>

definition example_listing :: "string list" where
  "example_listing = [
    ''28.png'', ''9.png'', ''19.png'', ''30.png'', ''29.png'', ''5.png'', ''7.png'',
    ''22.png'', ''0.png'', ''14.png'', ''8.png'', ''15.png'', ''23.png'', ''24.png'',
    ''21.png'', ''13.png'', ''25.png'', ''27.png'', ''6.png'', ''16.png'', ''26.png'',
    ''18.png'', ''11.png'', ''3.png'', ''17.png'', ''2.png'', ''1.png'', ''20.png'',
    ''12.png'', ''4.png'', ''10.png'']"

section \<open>The processing pipeline: data\<close>

text \<open>
  \<^verbatim>\<open>processing_pipeline.py\<close>. An exception is its message and its traceback. The image
  arrays are of a type \<open>'i\<close> and the regions of interest of a type \<open>'r\<close>: the pipeline only
  passes them on.
\<close>

datatype exc = Exception (message: string) (traceback: string)

text \<open>
  The fields of \<^verbatim>\<open>Config\<close> that \<^verbatim>\<open>run\<close> reads. \<^verbatim>\<open>receding_layers\<close> is an unsigned
  count; the operations of the XY pipeline are named by strings.
\<close>

record config =
  input_mode :: string
  input_folder :: string
  output_folder :: string
  start_index :: "int option"
  stop_index :: "int option"
  receding_layers :: nat
  blending_mode :: string
  roi_min_size :: nat
  xy_blend_pipeline :: "string list"
  debug_save :: bool
  uvtools_temp_folder :: string
  output_file_prefix :: string
  uvtools_delete_temp_on_completion :: bool

text \<open>The texts of the status signal, with the values they are formatted from.\<close>

datatype status =
  Processing_started
| Starting_extraction
| Extraction_completed
| Generating_operation_file
| Operation_file_generated
| Repacking_slice_file
| Successfully_created string
| Analyzing string nat nat
| Skipping_unloadable_image string
| Processing_stopped_by_user
| Completed_processing_images nat nat
| All_tasks_completed
| Deleting_temporary_folder string
| Temporary_files_deleted
| Processing_complete
| Processing_stopped_by_user_or_error

datatype error =
  No_images_found
| Task_failed exc
| Error_in_processing_thread exc
| Could_not_delete_temp_folder exc

text \<open>
  What the thread does towards the outside, in order: the four Qt signals, and the calls
  of the extraction, of the worker pool's \<^verbatim>\<open>submit\<close>, of the repacking and of
  \<^verbatim>\<open>shutil.rmtree\<close>. \<^verbatim>\<open>progress_update\<close> carries
  \<^verbatim>\<open>int((processed_count / total_images) * 100)\<close>, a floating-point value: the event
  keeps the two operands.
\<close>

datatype event =
  status_update status
| progress_update nat nat
| error_signal error
| finished_signal
| extract_call string
| submit_call string
| repack_call string
| rmtree_call string

text \<open>
  The places where \<^verbatim>\<open>run\<close> reads \<^verbatim>\<open>self._is_running\<close>, in program order: at the top
  of iteration \<open>i\<close> of the submission loop (line 151), at the top of iteration \<open>j\<close> of the
  completion loop (line 191), before the repacking (line 208) and at the end (line 225).
\<close>

datatype point = At_submit nat | At_result nat | At_repack | At_final

fun point_rank :: "point \<Rightarrow> nat \<times> nat" where
  "point_rank (At_submit i) = (0, i)"
| "point_rank (At_result j) = (1, j)"
| "point_rank At_repack = (2, 0)"
| "point_rank At_final = (3, 0)"

definition point_le :: "point \<Rightarrow> point \<Rightarrow> bool" where
  "point_le p q =
     (fst (point_rank p) < fst (point_rank q) \<or>
      (fst (point_rank p) = fst (point_rank q) \<and> snd (point_rank p) \<le> snd (point_rank q)))"

text \<open>
  One submitted task: the \<^verbatim>\<open>image_data\<close> dictionary, the address of its private copy of
  the mask history, the output folder and the debug flag it was submitted with, and whether
  its future was cancelled.
\<close>

record ('i, 'r) future =
  filepath :: string
  binary_image :: 'i
  original_image :: 'i
  classified_rois :: "'r list"
  prior_binary_masks_snapshot :: nat
  task_output_folder :: string
  task_debug_save :: bool
  cancelled :: bool

text \<open>
  Everything \<^verbatim>\<open>run\<close> does not decide itself: the timestamp, the user's call of
  \<^verbatim>\<open>stop_processing\<close> (given by the first read of the flag that comes after it, if any),
  the functions of \<^verbatim>\<open>uvtools_wrapper\<close>, \<^verbatim>\<open>processing_core\<close>,
  \<^verbatim>\<open>xy_blend_processor\<close> and \<^verbatim>\<open>roi_tracker\<close>, the file system calls, and the worker
  pool's scheduling: the time at which each future completes, and which futures have not
  started when \<^verbatim>\<open>cancel\<close> is called. The tracker is an object with state; its answer is
  a function of the calls made to it before.
\<close>

record ('i, 'r) env =
  run_timestamp :: string
  user_stop :: "point option"
  extract_layers :: "string \<Rightarrow> exc + string"
  listdir :: "string \<Rightarrow> string list"
  load_image :: "string \<Rightarrow> ('i \<times> 'i) option"
  identify_rois :: "'i \<Rightarrow> nat \<Rightarrow> 'r list"
  update_and_classify :: "('r list \<times> enat) list \<Rightarrow> 'r list \<Rightarrow> enat \<Rightarrow> config \<Rightarrow> 'r list"
  find_prior_combined_white_mask :: "'i list \<Rightarrow> exc + 'i"
  process_z_blending ::
    "'i \<Rightarrow> 'i \<Rightarrow> config \<Rightarrow> 'r list \<Rightarrow> (string \<times> string) option \<Rightarrow> exc + 'i"
  merge_to_output :: "'i \<Rightarrow> 'i \<Rightarrow> exc + 'i"
  process_xy_pipeline :: "'i \<Rightarrow> string list \<Rightarrow> exc + 'i"
  finish_time :: "nat \<Rightarrow> nat"
  pending_at_cancel :: "nat \<Rightarrow> bool"
  generate_uvtop_file :: "string \<Rightarrow> string \<Rightarrow> string \<Rightarrow> exc + string"
  repack_layers :: "string \<Rightarrow> string \<Rightarrow> exc + string"
  isdir :: "string \<Rightarrow> bool"
  rmtree :: "string \<Rightarrow> exc option"

text \<open>
  The state of a run: the fields of the thread object, the local variables of \<^verbatim>\<open>run\<close>
  that outlive a loop, the deques (an address is an index into \<open>heap\<close>), the image files
  written so far, and the events so far.
\<close>

record ('i, 'r) state =
  is_running :: bool
  session_temp_folder :: string
  heap :: "'i deque list"
  prior_binary_masks_cache :: nat
  tracker :: "('r list \<times> enat) list"
  active_futures :: "('i, 'r) future list"
  processed_count :: nat
  files :: "string \<rightharpoonup> 'i"
  events :: "event list"

text \<open>
  A computation that may raise: its value or the exception it raised, and the state when
  it ended.
\<close>

datatype ('a, 's) outcome = Returned 'a 's | Raised exc 's

section \<open>The processing pipeline: paths\<close>

text \<open>\<^verbatim>\<open>os.path\<close> on POSIX paths.\<close>

definition basename :: "string \<Rightarrow> string" where
  "basename p = rev (takeWhile (\<lambda>c. c \<noteq> CHR ''/'') (rev p))"

definition path_join :: "string \<Rightarrow> string \<Rightarrow> string" where
  "path_join a b =
     (if b \<noteq> [] \<and> hd b = CHR ''/'' then b
      else if a = [] \<or> last a = CHR ''/'' then a @ b
      else a @ ''/'' @ b)"

text \<open>
  \<^verbatim>\<open>os.path.splitext(p)[0]\<close>: the path up to the last dot of its last component, when a
  character other than a dot comes before that dot in the component; the whole path
  otherwise.
\<close>

definition splitext_root :: "string \<Rightarrow> string" where
  "splitext_root p =
     (let b = basename p;
          dot = length b - 1 - length (takeWhile (\<lambda>c. c \<noteq> CHR ''.'') (rev b))
      in if CHR ''.'' \<in> set b \<and> filter (\<lambda>c. c \<noteq> CHR ''.'') (take dot b) \<noteq> []
         then take (length p - length b + dot) p
         else p)"

text \<open>The paths that \<^verbatim>\<open>shutil.rmtree(d)\<close> removes: \<open>d\<close> and what lies below it.\<close>

definition below :: "string \<Rightarrow> string \<Rightarrow> bool" where
  "below d p = (p = d \<or> prefix (if d \<noteq> [] \<and> last d = CHR ''/'' then d else d @ ''/'') p)"

section \<open>The processing pipeline: operations\<close>

definition emit :: "event \<Rightarrow> ('i, 'r) state \<Rightarrow> ('i, 'r) state" where
  "emit e s = s\<lparr>events := events s @ [e]\<rparr>"

definition stop_requested :: "('i, 'r) env \<Rightarrow> point \<Rightarrow> bool" where
  "stop_requested env pt = (case user_stop env of None \<Rightarrow> False | Some q \<Rightarrow> point_le q pt)"

text \<open>
  The value of \<^verbatim>\<open>self._is_running\<close> read at a point: false once \<^verbatim>\<open>run\<close> has reset it
  or the user has called \<^verbatim>\<open>stop_processing\<close>.
\<close>

definition running :: "('i, 'r) env \<Rightarrow> point \<Rightarrow> ('i, 'r) state \<Rightarrow> bool" where
  "running env pt s = (is_running s \<and> \<not> stop_requested env pt)"

definition initial_state :: "('i, 'r) state" where
  "initial_state = \<lparr>is_running = True, session_temp_folder = [], heap = [],
     prior_binary_masks_cache = 0, tracker = [], active_futures = [], processed_count = 0,
     files = Map.empty, events = []\<rparr>"

definition run_uvtools_extraction ::
  "('i, 'r) env \<Rightarrow> config \<Rightarrow> ('i, 'r) state \<Rightarrow> (string, ('i, 'r) state) outcome" where
  "run_uvtools_extraction env cfg s =
     (let s1 = emit (status_update Starting_extraction) s;
          s2 = s1\<lparr>session_temp_folder :=
                 path_join (uvtools_temp_folder cfg) (output_file_prefix cfg @ run_timestamp env)\<rparr>;
          s3 = emit (extract_call (session_temp_folder s2)) s2
      in case extract_layers env (session_temp_folder s2) of
           Inl e \<Rightarrow> Raised e s3
         | Inr extracted_folder \<Rightarrow>
             Returned extracted_folder (emit (status_update Extraction_completed) s3))"

text \<open>The event \<open>repack_call\<close> marks the entry into \<^verbatim>\<open>_run_uvtools_repack\<close>.\<close>

definition run_uvtools_repack ::
  "('i, 'r) env \<Rightarrow> string \<Rightarrow> ('i, 'r) state \<Rightarrow> (unit, ('i, 'r) state) outcome" where
  "run_uvtools_repack env processed_images_folder s =
     (let s0 = emit (repack_call processed_images_folder) s;
          s1 = emit (status_update Generating_operation_file) s0
      in case generate_uvtop_file env processed_images_folder (session_temp_folder s1)
                (run_timestamp env) of
           Inl e \<Rightarrow> Raised e s1
         | Inr uvtop_filepath \<Rightarrow>
             let s2 = emit (status_update Operation_file_generated) s1;
                 s3 = emit (status_update Repacking_slice_file) s2
             in case repack_layers env uvtop_filepath (session_temp_folder s3) of
                  Inl e \<Rightarrow> Raised e s3
                | Inr final_output_path \<Rightarrow>
                    Returned ()
                      (emit (status_update (Successfully_created (basename final_output_path))) s3))"

text \<open>
  \<^verbatim>\<open>_process_single_image_task\<close>, run by a worker: the path it returns or the exception
  it raises, and the image files after it. \<^verbatim>\<open>cv2.imwrite\<close> writes the file.
\<close>

definition process_single_image_task ::
  "('i, 'r) env \<Rightarrow> config \<Rightarrow> 'i deque list \<Rightarrow> ('i, 'r) future \<Rightarrow> (string \<rightharpoonup> 'i) \<Rightarrow>
   (exc + string) \<times> (string \<rightharpoonup> 'i)" where
  "process_single_image_task env cfg hp fut fs =
     (let debug_info =
            (if task_debug_save fut
             then Some (task_output_folder fut, splitext_root (basename (filepath fut)))
             else None)
      in case find_prior_combined_white_mask env
                (items (hp ! prior_binary_masks_snapshot fut)) of
           Inl e \<Rightarrow> (Inl e, fs)
         | Inr prior_white_combined_mask \<Rightarrow>
        (case process_z_blending env (binary_image fut) prior_white_combined_mask cfg
                (classified_rois fut) debug_info of
           Inl e \<Rightarrow> (Inl e, fs)
         | Inr receding_gradient \<Rightarrow>
        (case merge_to_output env (original_image fut) receding_gradient of
           Inl e \<Rightarrow> (Inl e, fs)
         | Inr output_image_from_core \<Rightarrow>
        (case process_xy_pipeline env output_image_from_core (xy_blend_pipeline cfg) of
           Inl e \<Rightarrow> (Inl e, fs)
         | Inr final_processed_image \<Rightarrow>
             let output_filename = basename (filepath fut);
                 output_filepath = path_join (task_output_folder fut) output_filename
             in (Inr output_filepath, fs(output_filepath \<mapsto> final_processed_image))))))"

text \<open>
  One layer of the submission loop, lines 155 to 187. The copy of the cache is a new deque
  at a new address; the push changes the deque at the address of the cache.
\<close>

definition submit_layer ::
  "('i, 'r) env \<Rightarrow> config \<Rightarrow> string \<Rightarrow> string \<Rightarrow> nat \<Rightarrow> nat \<Rightarrow> string \<Rightarrow>
   ('i, 'r) state \<Rightarrow> ('i, 'r) state" where
  "submit_layer env cfg input_path processing_output_path total_images i filename s =
     (let s1 = emit (status_update (Analyzing filename (i + 1) total_images)) s;
          fp = path_join input_path filename
      in case load_image env fp of
           None \<Rightarrow> emit (status_update (Skipping_unloadable_image filename)) s1
         | Some (binary, original) \<Rightarrow>
             let layer_index = get_numeric_part filename;
                 rois = identify_rois env binary (roi_min_size cfg);
                 rois_classified =
                   (if blending_mode cfg = ''roi_fade''
                    then update_and_classify env (tracker s1) rois layer_index cfg else []);
                 s2 = (if blending_mode cfg = ''roi_fade''
                       then s1\<lparr>tracker := tracker s1 @ [(rois, layer_index)]\<rparr> else s1);
                 snapshot = length (heap s2);
                 s3 = s2\<lparr>heap := heap s2 @ [deque_copy (heap s2 ! prior_binary_masks_cache s2)]\<rparr>;
                 fut = \<lparr>filepath = fp, binary_image = binary, original_image = original,
                        classified_rois = rois_classified,
                        prior_binary_masks_snapshot = snapshot,
                        task_output_folder = processing_output_path,
                        task_debug_save = debug_save cfg, cancelled = False\<rparr>;
                 s4 = emit (submit_call fp) (s3\<lparr>active_futures := active_futures s3 @ [fut]\<rparr>)
             in s4\<lparr>heap := (heap s4)[prior_binary_masks_cache s4 :=
                      deque_append (heap s4 ! prior_binary_masks_cache s4) binary]\<rparr>)"

text \<open>The submission loop, lines 150 to 187, from iteration \<open>i\<close> on.\<close>

fun submit_loop ::
  "('i, 'r) env \<Rightarrow> config \<Rightarrow> string \<Rightarrow> string \<Rightarrow> nat \<Rightarrow> nat \<Rightarrow> string list \<Rightarrow>
   ('i, 'r) state \<Rightarrow> ('i, 'r) state" where
  "submit_loop env cfg input_path processing_output_path total_images i [] s = s"
| "submit_loop env cfg input_path processing_output_path total_images i (filename # rest) s =
     (if \<not> running env (At_submit i) s
      then emit (status_update Processing_stopped_by_user) s
      else submit_loop env cfg input_path processing_output_path total_images (i + 1) rest
             (submit_layer env cfg input_path processing_output_path total_images i filename s))"

text \<open>
  \<^verbatim>\<open>as_completed\<close> yields the futures in the order in which they complete: the indices
  of the \<open>n\<close> futures, sorted by the time at which each completes.
\<close>

definition as_completed :: "('i, 'r) env \<Rightarrow> nat \<Rightarrow> nat list" where
  "as_completed env n = sort_key (finish_time env) [0..<n]"

text \<open>
  \<^verbatim>\<open>future.result()\<close>: what the task returns or raises. A task's result does not depend
  on the image files.
\<close>

definition future_result :: "('i, 'r) env \<Rightarrow> config \<Rightarrow> ('i, 'r) state \<Rightarrow> nat \<Rightarrow> exc + string" where
  "future_result env cfg s k =
     fst (process_single_image_task env cfg (heap s) (active_futures s ! k) Map.empty)"

text \<open>
  \<^verbatim>\<open>f.cancel()\<close> on every future: a future that has not started is cancelled, one that is
  running or finished stays as it is. The futures in \<open>finished\<close> are those that
  \<^verbatim>\<open>as_completed\<close> has yielded.
\<close>

definition cancel_all ::
  "('i, 'r) env \<Rightarrow> nat list \<Rightarrow> ('i, 'r) future list \<Rightarrow> ('i, 'r) future list" where
  "cancel_all env finished futs =
     map (\<lambda>(k, fut). if pending_at_cancel env k \<and> k \<notin> set finished
                      then fut\<lparr>cancelled := True\<rparr> else fut)
       (List.enumerate 0 futs)"

text \<open>
  The completion loop, lines 189 to 204, from iteration \<open>j\<close> on; \<open>order\<close> holds the futures
  still to be yielded and \<open>finished\<close> those yielded before.
\<close>

fun completion_loop ::
  "('i, 'r) env \<Rightarrow> config \<Rightarrow> nat \<Rightarrow> nat \<Rightarrow> nat list \<Rightarrow> nat list \<Rightarrow>
   ('i, 'r) state \<Rightarrow> ('i, 'r) state" where
  "completion_loop env cfg total_images j [] finished s = s"
| "completion_loop env cfg total_images j (k # order) finished s =
     (if \<not> running env (At_result j) s then s
      else case future_result env cfg s k of
        Inr output_filepath \<Rightarrow>
          let s1 = s\<lparr>processed_count := processed_count s + 1\<rparr>;
              s2 = emit (status_update (Completed_processing_images (processed_count s1) total_images)) s1;
              s3 = emit (progress_update (processed_count s1) total_images) s2
          in completion_loop env cfg total_images (j + 1) order (finished @ [k]) s3
      | Inl e \<Rightarrow>
          let s1 = emit (error_signal (Task_failed e)) s;
              s2 = s1\<lparr>is_running := False\<rparr>
          in s2\<lparr>active_futures := cancel_all env (finished @ [k]) (active_futures s2)\<rparr>)"

text \<open>
  Leaving the \<^verbatim>\<open>with\<close> block waits for the worker pool: every future that was not
  cancelled has run to its end by then, in the order of completion.
\<close>

definition run_future :: "('i, 'r) env \<Rightarrow> config \<Rightarrow> ('i, 'r) state \<Rightarrow> nat \<Rightarrow> ('i, 'r) state" where
  "run_future env cfg s k =
     (let fut = active_futures s ! k in
      if cancelled fut then s
      else s\<lparr>files := snd (process_single_image_task env cfg (heap s) fut (files s))\<rparr>)"

definition executor_shutdown :: "('i, 'r) env \<Rightarrow> config \<Rightarrow> ('i, 'r) state \<Rightarrow> ('i, 'r) state" where
  "executor_shutdown env cfg s =
     foldl (run_future env cfg) s (as_completed env (length (active_futures s)))"

text \<open>Lines 115 to 123: where the layer images are read and where the results go.\<close>

definition locate_input ::
  "('i, 'r) env \<Rightarrow> config \<Rightarrow> ('i, 'r) state \<Rightarrow> (string \<times> string, ('i, 'r) state) outcome" where
  "locate_input env cfg s =
     (if input_mode cfg = ''uvtools''
      then (case run_uvtools_extraction env cfg s of
              Raised e s' \<Rightarrow> Raised e s'
            | Returned input_path s' \<Rightarrow>
                Returned (input_path, path_join (session_temp_folder s') ''Output'') s')
      else Returned (input_folder cfg, output_folder cfg) s)"

text \<open>Lines 144 to 189: the cache and the tracker are created, and the layers are submitted.\<close>

definition submit_phase ::
  "('i, 'r) env \<Rightarrow> config \<Rightarrow> string \<Rightarrow> string \<Rightarrow> string list \<Rightarrow> ('i, 'r) state \<Rightarrow>
   ('i, 'r) state" where
  "submit_phase env cfg input_path processing_output_path filenames s =
     (let s1 = s\<lparr>heap := heap s @ [deque_new (receding_layers cfg)],
                 prior_binary_masks_cache := length (heap s), tracker := [],
                 active_futures := []\<rparr>;
          s2 = submit_loop env cfg input_path processing_output_path (length filenames) 0
                 filenames s1
      in s2\<lparr>processed_count := 0\<rparr>)"

definition completion_phase ::
  "('i, 'r) env \<Rightarrow> config \<Rightarrow> nat \<Rightarrow> ('i, 'r) state \<Rightarrow> ('i, 'r) state" where
  "completion_phase env cfg total_images s =
     completion_loop env cfg total_images 0 (as_completed env (length (active_futures s))) [] s"

text \<open>Lines 139 to 206, for a list of files that is not empty.\<close>

definition process_layers ::
  "('i, 'r) env \<Rightarrow> config \<Rightarrow> string \<Rightarrow> string \<Rightarrow> string list \<Rightarrow> ('i, 'r) state \<Rightarrow>
   ('i, 'r) state" where
  "process_layers env cfg input_path processing_output_path filenames s =
     emit (status_update All_tasks_completed)
       (executor_shutdown env cfg
          (completion_phase env cfg (length filenames)
             (submit_phase env cfg input_path processing_output_path filenames s)))"

text \<open>The body of the \<^verbatim>\<open>try\<close>, lines 115 to 209.\<close>

definition try_body ::
  "('i, 'r) env \<Rightarrow> config \<Rightarrow> ('i, 'r) state \<Rightarrow> (unit, ('i, 'r) state) outcome" where
  "try_body env cfg s =
     (case locate_input env cfg s of
        Raised e s' \<Rightarrow> Raised e s'
      | Returned (input_path, processing_output_path) s1 \<Rightarrow>
          let image_filenames =
                image_filenames_filtered (start_index cfg) (stop_index cfg) (listdir env input_path)
          in if length image_filenames = 0
             then Returned () (emit (error_signal No_images_found) s1)
             else
               let s2 = process_layers env cfg input_path processing_output_path image_filenames s1
               in if input_mode cfg = ''uvtools'' \<and> running env At_repack s2
                  then run_uvtools_repack env processing_output_path s2
                  else Returned () s2)"

text \<open>
  The \<^verbatim>\<open>finally\<close> block, lines 215 to 229: the temporary folder is removed when that is
  configured, and the end of the run is reported. A \<^verbatim>\<open>rmtree\<close> that returns has removed
  the folder and what lies below it; one that raises is taken to have removed nothing.
\<close>

definition cleanup :: "('i, 'r) env \<Rightarrow> config \<Rightarrow> ('i, 'r) state \<Rightarrow> ('i, 'r) state" where
  "cleanup env cfg s =
     (let folder = session_temp_folder s in
      if input_mode cfg = ''uvtools'' \<and> uvtools_delete_temp_on_completion cfg
      then (if folder \<noteq> [] \<and> isdir env folder
            then
              let s' = emit (rmtree_call folder)
                         (emit (status_update (Deleting_temporary_folder folder)) s)
              in case rmtree env folder of
                   None \<Rightarrow>
                     emit (status_update Temporary_files_deleted)
                       (s'\<lparr>files := (\<lambda>p. if below folder p then None else files s' p)\<rparr>)
                 | Some e \<Rightarrow> emit (error_signal (Could_not_delete_temp_folder e)) s'
            else s)
      else s)"

definition finally_block :: "('i, 'r) env \<Rightarrow> config \<Rightarrow> ('i, 'r) state \<Rightarrow> ('i, 'r) state" where
  "finally_block env cfg s =
     (let s1 = cleanup env cfg s;
          s2 = (if running env At_final s1
                then emit (status_update Processing_complete) s1
                else emit (status_update Processing_stopped_by_user_or_error) s1)
      in emit finished_signal s2)"

text \<open>Line 107: the state in which the \<^verbatim>\<open>try\<close> begins.\<close>

definition start_state :: "('i, 'r) state" where
  "start_state = emit (status_update Processing_started) initial_state"

definition run :: "('i, 'r) env \<Rightarrow> config \<Rightarrow> ('i, 'r) state" where
  "run env cfg =
     finally_block env cfg
       (case try_body env cfg start_state of
          Returned u s \<Rightarrow> s
        | Raised e s \<Rightarrow> emit (error_signal (Error_in_processing_thread e)) s)"


definition snapshots_ok :: "nat \<Rightarrow> 'i deque list \<Rightarrow> nat \<Rightarrow> nat list \<Rightarrow> 'i list \<Rightarrow> bool" where
  "snapshots_ok n hp c snaps masks \<longleftrightarrow>
     c < length hp \<and> hp ! c = pushes n masks \<and> length snaps = length masks \<and>
     (\<forall>k < length snaps. snaps ! k < length hp \<and> snaps ! k \<noteq> c \<and>
        hp ! (snaps ! k) = deque_copy (pushes n (take k masks)))"

definition snapshots_of :: "('i, 'r) state \<Rightarrow> nat list" where
  "snapshots_of s = map prior_binary_masks_snapshot (active_futures s)"

definition masks_of :: "('i, 'r) state \<Rightarrow> 'i list" where
  "masks_of s = map binary_image (active_futures s)"

definition state_ok :: "nat \<Rightarrow> ('i, 'r) state \<Rightarrow> bool" where
  "state_ok n s =
     snapshots_ok n (heap s) (prior_binary_masks_cache s) (snapshots_of s) (masks_of s)"

text \<open>The tasks of a state, whatever was cancelled.\<close>

definition tasks_of :: "('i, 'r) state \<Rightarrow> ('i, 'r) future list" where
  "tasks_of s = map (\<lambda>fut. fut\<lparr>cancelled := False\<rparr>) (active_futures s)"

text \<open>The worker's task: the image it computes, and then the file it writes.\<close>

definition task_image :: "('i, 'r) env \<Rightarrow> config \<Rightarrow> 'i deque list \<Rightarrow> ('i, 'r) future \<Rightarrow> exc + 'i" where
  "task_image env cfg hp fut =
     (case find_prior_combined_white_mask env (items (hp ! prior_binary_masks_snapshot fut)) of
        Inl e \<Rightarrow> Inl e
      | Inr prior \<Rightarrow>
     (case process_z_blending env (binary_image fut) prior cfg (classified_rois fut)
             (if task_debug_save fut
              then Some (task_output_folder fut, splitext_root (basename (filepath fut)))
              else None) of
        Inl e \<Rightarrow> Inl e
      | Inr gradient \<Rightarrow>
     (case merge_to_output env (original_image fut) gradient of
        Inl e \<Rightarrow> Inl e
      | Inr merged \<Rightarrow> process_xy_pipeline env merged (xy_blend_pipeline cfg))))"

text \<open>The submission loop without the check of the flag, and the events of its layers.\<close>

fun submit_layers ::
  "('i, 'r) env \<Rightarrow> config \<Rightarrow> string \<Rightarrow> string \<Rightarrow> nat \<Rightarrow> nat \<Rightarrow> string list \<Rightarrow>
   ('i, 'r) state \<Rightarrow> ('i, 'r) state" where
  "submit_layers env cfg ip op t i [] s = s"
| "submit_layers env cfg ip op t i (f # fs) s =
     submit_layers env cfg ip op t (i + 1) fs (submit_layer env cfg ip op t i f s)"

definition loadable :: "('i, 'r) env \<Rightarrow> string \<Rightarrow> string \<Rightarrow> bool" where
  "loadable env ip f = (load_image env (path_join ip f) \<noteq> None)"

fun layer_events :: "('i, 'r) env \<Rightarrow> string \<Rightarrow> nat \<Rightarrow> nat \<Rightarrow> string list \<Rightarrow> event list" where
  "layer_events env ip t i [] = []"
| "layer_events env ip t i (f # fs) =
     status_update (Analyzing f (i + 1) t) #
     (if loadable env ip f then submit_call (path_join ip f)
      else status_update (Skipping_unloadable_image f)) #
     layer_events env ip t (i + 1) fs"

definition layers_reached :: "('i, 'r) env \<Rightarrow> nat \<Rightarrow> nat \<Rightarrow> nat" where
  "layers_reached env i n =
     (case user_stop env of Some (At_submit q) \<Rightarrow> min (q - i) n | _ \<Rightarrow> n)"

fun submit_path :: "event \<Rightarrow> string list" where
  "submit_path (submit_call p) = [p]"
| "submit_path ev = []"

definition submits :: "event list \<Rightarrow> string list" where
  "submits evs = concat (map submit_path evs)"

text \<open>The futures that the submission loop creates.\<close>

definition as_submitted :: "('i, 'r) env \<Rightarrow> config \<Rightarrow> string \<Rightarrow> ('i, 'r) future \<Rightarrow> bool" where
  "as_submitted env cfg op fut \<longleftrightarrow>
     task_output_folder fut = op \<and> task_debug_save fut = debug_save cfg \<and>
     load_image env (filepath fut) = Some (binary_image fut, original_image fut)"

text \<open>The completion loop.\<close>

fun completion_events :: "nat \<Rightarrow> nat \<Rightarrow> nat \<Rightarrow> event list" where
  "completion_events pc t 0 = []"
| "completion_events pc t (Suc n) =
     status_update (Completed_processing_images (pc + 1) t) # progress_update (pc + 1) t #
     completion_events (pc + 1) t n"

text \<open>The end of the run.\<close>

definition removes_temp :: "('i, 'r) env \<Rightarrow> config \<Rightarrow> string \<Rightarrow> bool" where
  "removes_temp env cfg folder \<longleftrightarrow>
     input_mode cfg = ''uvtools'' \<and> uvtools_delete_temp_on_completion cfg \<and> folder \<noteq> [] \<and>
     isdir env folder \<and> rmtree env folder = None"

definition cleanup_events :: "('i, 'r) env \<Rightarrow> config \<Rightarrow> string \<Rightarrow> event list" where
  "cleanup_events env cfg folder =
     (if input_mode cfg = ''uvtools'' \<and> uvtools_delete_temp_on_completion cfg \<and> folder \<noteq> [] \<and>
         isdir env folder
      then [status_update (Deleting_temporary_folder folder), rmtree_call folder,
            case rmtree env folder of
              None \<Rightarrow> status_update Temporary_files_deleted
            | Some e \<Rightarrow> error_signal (Could_not_delete_temp_folder e)]
      else [])"

definition filenames :: "('i, 'r) env \<Rightarrow> config \<Rightarrow> string \<Rightarrow> string list" where
  "filenames env cfg ip =
     image_filenames_filtered (start_index cfg) (stop_index cfg) (listdir env ip)"

text \<open>
  Environments and configurations to run the pipeline on. The folder holds four layer
  images, of which \<^verbatim>\<open>1.png\<close> cannot be loaded; the images are numbers; the futures complete
  in the order of their submission, and those that have not completed have not started.
  The user's stop and the last processing step are left open; the configurations differ
  in the input mode and in whether the temporary folder is removed at the end.
\<close>

definition example_env_with ::
  "point option \<Rightarrow> (nat \<Rightarrow> string list \<Rightarrow> exc + nat) \<Rightarrow> (nat, nat) env" where
  "example_env_with stop xy = \<lparr>run_timestamp = ''T'', user_stop = stop,
     extract_layers = (\<lambda>d. Inr (path_join d ''Input'')),
     listdir = (\<lambda>d. [''2.png'', ''0.png'', ''notes.txt'', ''3.png'', ''1.png'']),
     load_image = (\<lambda>p. if basename p = ''0.png'' then Some (10, 100)
                        else if basename p = ''2.png'' then Some (12, 102)
                        else if basename p = ''3.png'' then Some (13, 103) else None),
     identify_rois = (\<lambda>b n. []),
     update_and_classify = (\<lambda>h r l c. []),
     find_prior_combined_white_mask = (\<lambda>ms. Inr (sum_list ms)),
     process_z_blending = (\<lambda>c p cfg r d. Inr (c + p)),
     merge_to_output = (\<lambda>orig g. Inr (orig + g)),
     process_xy_pipeline = xy,
     finish_time = (\<lambda>k. k),
     pending_at_cancel = (\<lambda>k. True),
     generate_uvtop_file = (\<lambda>a b c. Inr (path_join b ''repack.uvtop'')),
     repack_layers = (\<lambda>a b. Inr (path_join b ''out.ctb'')),
     isdir = (\<lambda>d. True),
     rmtree = (\<lambda>d. None)\<rparr>"

text \<open>Every step succeeds and nobody stops the run.\<close>

definition example_env :: "(nat, nat) env" where
  "example_env = example_env_with None (\<lambda>i ops. Inr i)"

text \<open>The last processing step fails on the image of the layer \<^verbatim>\<open>2.png\<close>.\<close>

definition failing_env :: "(nat, nat) env" where
  "failing_env =
     example_env_with None (\<lambda>i ops. if i = 124 then Inl (Exception ''boom'' ''tb'') else Inr i)"

text \<open>The user stops the run before the third layer is looked at.\<close>

definition stopping_env :: "(nat, nat) env" where
  "stopping_env = example_env_with (Some (At_submit 2)) (\<lambda>i ops. Inr i)"

definition example_config_with :: "string \<Rightarrow> bool \<Rightarrow> config" where
  "example_config_with mode delete_temp =
     \<lparr>input_mode = mode, input_folder = ''in'', output_folder = ''out'',
      start_index = None, stop_index = None, receding_layers = 1,
      blending_mode = ''fixed_fade'', roi_min_size = 0, xy_blend_pipeline = [],
      debug_save = False, uvtools_temp_folder = ''tmp'', output_file_prefix = ''p_'',
      uvtools_delete_temp_on_completion = delete_temp\<rparr>"

definition example_config :: config where
  "example_config = example_config_with ''folder'' False"

text \<open>The deques and the futures of these runs when all four layers have been looked at.\<close>

definition example_heap :: "nat deque list" where
  "example_heap =
     [\<lparr>maxlen = Some 1, items = [13]\<rparr>, \<lparr>maxlen = None, items = []\<rparr>,
      \<lparr>maxlen = None, items = [10]\<rparr>, \<lparr>maxlen = None, items = [12]\<rparr>]"

definition example_futures :: "string \<Rightarrow> string \<Rightarrow> (nat, nat) future list" where
  "example_futures ip op =
     [\<lparr>filepath = path_join ip ''0.png'', binary_image = 10, original_image = 100,
       classified_rois = [], prior_binary_masks_snapshot = 1, task_output_folder = op,
       task_debug_save = False, cancelled = False\<rparr>,
      \<lparr>filepath = path_join ip ''2.png'', binary_image = 12, original_image = 102,
       classified_rois = [], prior_binary_masks_snapshot = 2, task_output_folder = op,
       task_debug_save = False, cancelled = False\<rparr>,
      \<lparr>filepath = path_join ip ''3.png'', binary_image = 13, original_image = 103,
       classified_rois = [], prior_binary_masks_snapshot = 3, task_output_folder = op,
       task_debug_save = False, cancelled = False\<rparr>]"


text \<open>Events of one kind among the events of a run.\<close>

definition proj :: "(event \<Rightarrow> 'a list) \<Rightarrow> event list \<Rightarrow> 'a list" where
  "proj f evs = concat (map f evs)"

fun repack_path :: "event \<Rightarrow> string list" where
  "repack_path (repack_call f) = [f]"
| "repack_path ev = []"

fun task_failure :: "event \<Rightarrow> exc list" where
  "task_failure (error_signal (Task_failed e)) = [e]"
| "task_failure ev = []"

fun reported :: "event \<Rightarrow> error list" where
  "reported (error_signal err) = [err]"
| "reported ev = []"

definition completed :: "nat \<Rightarrow> ('i, 'r) state \<Rightarrow> ('i, 'r) state" where
  "completed t s =
     emit (progress_update (Suc (processed_count s)) t)
       (emit (status_update (Completed_processing_images (Suc (processed_count s)) t))
          (s\<lparr>processed_count := Suc (processed_count s)\<rparr>))"

definition failed :: "('i, 'r) env \<Rightarrow> exc \<Rightarrow> nat list \<Rightarrow> ('i, 'r) state \<Rightarrow> ('i, 'r) state" where
  "failed env e fin s =
     (emit (error_signal (Task_failed e)) s)
       \<lparr>is_running := False, active_futures := cancel_all env fin (active_futures s)\<rparr>"

section \<open>Properties of the cache\<close>

lemma maxlen_deque_append: "maxlen (deque_append d x) = maxlen d"
  by (simp add: deque_append_def Let_def split: option.splits)

lemma maxlen_foldl_append: "maxlen (foldl deque_append d xs) = maxlen d"
  by (induction xs arbitrary: d) (simp_all add: maxlen_deque_append)

lemma popleft_drop: "popleft xs = drop 1 xs"
  by (cases xs) (simp_all add: popleft_def)

lemma items_append_bounded:
  assumes "maxlen d = Some n" and "length (items d) \<le> n"
  shows "items (deque_append d x) = drop (length (items d) + 1 - n) (items d @ [x])"
proof (cases "n < length (items d) + 1")
  case True
  with assms have eq: "length (items d) = n" by simp
  have "items (deque_append d x) = popleft (items d @ [x])"
    using assms True by (simp add: deque_append_def Let_def)
  also have "\<dots> = drop 1 (items d @ [x])" by (rule popleft_drop)
  finally show ?thesis using eq by simp
next
  case False
  then show ?thesis using assms by (simp add: deque_append_def Let_def)
qed

lemma items_foldl_append:
  assumes "maxlen d = Some n" and "length (items d) \<le> n"
  shows "items (foldl deque_append d xs) =
         drop (length (items d) + length xs - n) (items d @ xs)"
  using assms
proof (induction xs arbitrary: d)
  case Nil
  then show ?case by simp
next
  case (Cons x xs)
  let ?d = "deque_append d x"
  have it: "items ?d = drop (length (items d) + 1 - n) (items d @ [x])"
    using Cons.prems by (rule items_append_bounded)
  have ml: "maxlen ?d = Some n"
    using Cons.prems by (simp add: maxlen_deque_append)
  have len: "length (items ?d) \<le> n"
    using Cons.prems by (simp add: it)
  have "items (foldl deque_append ?d xs) =
        drop (length (items ?d) + length xs - n) (items ?d @ xs)"
    using ml len by (rule Cons.IH)
  also have "\<dots> = drop (length (items d) + length (x # xs) - n) (items d @ x # xs)"
  proof (cases "n < length (items d) + 1")
    case True
    with Cons.prems have eq: "length (items d) = n" by simp
    show ?thesis
    proof (cases "items d")
      case Nil
      with eq show ?thesis by (simp add: it)
    next
      case (Cons y ys)
      with eq show ?thesis by (simp add: it)
    qed
  next
    case False
    then show ?thesis by (simp add: it)
  qed
  finally show ?case by simp
qed

lemma items_pushes: "items (pushes n xs) = drop (length xs - n) xs"
  using items_foldl_append [of "deque_new n" n xs]
  by (simp add: pushes_def deque_new_def)

text \<open>
  C3. After the pushes \<open>xs\<close> into a cache of capacity \<open>n\<close>, the cache holds
  \<open>min (length xs) n\<close> masks, they are the last that many pushed masks in push order
  (the oldest were evicted), and a cache of capacity 0 is empty after any pushes.
\<close>

theorem cache_holds_last_pushes:
  "length (items (pushes n xs)) = min (length xs) n \<and>
   items (pushes n xs) = drop (length xs - min (length xs) n) xs \<and>
   items (pushes 0 xs) = []"
proof -
  have "length xs - min (length xs) n = length xs - n" by simp
  then show ?thesis by (simp add: items_pushes)
qed

section \<open>Undo and redo in the project\<close>




lemma perform_undo_absent:
  assumes "undo_stack p \<noteq> []"
    and "edits p (get_affected_layer (last (undo_stack p))) = None"
  shows "perform_undo p =
         (Some (last (undo_stack p)),
          p\<lparr>undo_stack := butlast (undo_stack p),
            redo_stack := redo_stack p @ [last (undo_stack p)]\<rparr>)"
  using assms by (simp add: perform_undo_def find_and_remove_command_def Let_def)






section \<open>Properties of the layer files\<close>


lemma length_dropWhile_stop:
  "\<not> P x \<Longrightarrow> Suc (length b) \<le> length (dropWhile P (a @ x # b))"
  by (induction a) auto

lemma match_here_exact:
  assumes "ds \<noteq> []" and "\<forall>c\<in>set ds. is_digit c"
    and "ext \<noteq> []" and "\<forall>c\<in>set ext. is_word c"
  shows "match_here (ds @ CHR ''.'' # ext) = Some ds"
proof -
  have nd: "\<not> is_digit CHR ''.''" by (simp add: is_digit_def)
  have t: "takeWhile is_digit (ds @ CHR ''.'' # ext) = ds"
    using assms(2) nd by (simp add: takeWhile_append2)
  have d: "dropWhile is_digit (ds @ CHR ''.'' # ext) = CHR ''.'' # ext"
    using assms(2) nd by (simp add: dropWhile_append2)
  have tw: "takeWhile is_word ext = ext" using assms(4) by (simp add: takeWhile_eq_all_conv)
  have dw: "dropWhile is_word ext = []" using assms(4) by simp
  show ?thesis using assms(1,3,4) by (simp add: match_here_def t d tw dw Let_def)
qed

lemma match_here_earlier:
  assumes "q \<noteq> []" and "\<not> is_digit (last q)" and "ext \<noteq> []"
  shows "match_here (q @ ds @ CHR ''.'' # ext) = None"
proof -
  have lq: "last q \<in> set q" using assms(1) by simp
  have t: "takeWhile is_digit (q @ ds @ CHR ''.'' # ext) = takeWhile is_digit q"
    using lq assms(2) by (rule takeWhile_append1)
  have d: "dropWhile is_digit (q @ ds @ CHR ''.'' # ext) =
           dropWhile is_digit q @ ds @ CHR ''.'' # ext"
    using lq assms(2) by (rule dropWhile_append1)
  have ne: "dropWhile is_digit q \<noteq> []"
    using lq assms(2) by (auto simp: dropWhile_eq_Nil_conv)
  then obtain c r where cr: "dropWhile is_digit q = c # r" by (cases "dropWhile is_digit q") auto
  have nw: "\<not> is_word CHR ''.''" by (simp add: is_word_def)
  have "Suc (length ext) \<le> length (dropWhile is_word ((r @ ds) @ CHR ''.'' # ext))"
    using nw by (rule length_dropWhile_stop)
  then have len: "2 \<le> length (dropWhile is_word (r @ ds @ CHR ''.'' # ext))"
    using assms(3) by (cases ext) auto
  have a1: "dropWhile is_word (r @ ds @ CHR ''.'' # ext) \<noteq> []"
  proof
    assume "dropWhile is_word (r @ ds @ CHR ''.'' # ext) = []"
    then have "length (dropWhile is_word (r @ ds @ CHR ''.'' # ext)) = 0" by (simp only: list.size)
    with len show False by simp
  qed
  have a2: "dropWhile is_word (r @ ds @ CHR ''.'' # ext) \<noteq> [CHR 0x0A]"
  proof
    assume "dropWhile is_word (r @ ds @ CHR ''.'' # ext) = [CHR 0x0A]"
    then have "length (dropWhile is_word (r @ ds @ CHR ''.'' # ext)) = 1" by (simp only: list.size)
    with len show False by simp
  qed
  show ?thesis
    using a1 a2 by (simp add: match_here_def t d cr Let_def del: dropWhile_eq_Nil_conv)
qed

lemma search_trailing_digits:
  assumes "ds \<noteq> []" and "\<forall>c\<in>set ds. is_digit c"
    and "ext \<noteq> []" and "\<forall>c\<in>set ext. is_word c"
    and "pre = [] \<or> \<not> is_digit (last pre)"
  shows "search (pre @ ds @ CHR ''.'' # ext) = Some ds"
  using assms(5)
proof (induction pre)
  case Nil
  have m: "match_here (ds @ CHR ''.'' # ext) = Some ds"
    using assms(1-4) by (rule match_here_exact)
  obtain d ds' where "ds = d # ds'" using assms(1) by (cases ds) auto
  then show ?case using m by simp
next
  case (Cons p pre)
  from Cons.prems have nl: "\<not> is_digit (last (p # pre))" by simp
  have m: "match_here ((p # pre) @ ds @ CHR ''.'' # ext) = None"
    using _ nl assms(3) by (rule match_here_earlier) simp
  have "pre = [] \<or> \<not> is_digit (last pre)" using nl by (cases pre) auto
  then have "search (pre @ ds @ CHR ''.'' # ext) = Some ds" by (rule Cons.IH)
  then show ?case using m by simp
qed


lemma get_numeric_part_trailing_digits:
  assumes "ds \<noteq> []" and "\<forall>c\<in>set ds. is_digit c"
    and "ext \<noteq> []" and "\<forall>c\<in>set ext. is_word c"
    and "pre = [] \<or> \<not> is_digit (last pre)"
  shows "get_numeric_part (pre @ ds @ CHR ''.'' # ext) = enat (int_of_digits ds)"
  using search_trailing_digits [OF assms] by (simp add: get_numeric_part_def)

lemma get_numeric_part_infinity: "get_numeric_part f = \<infinity> \<longleftrightarrow> search f = None"
  by (simp add: get_numeric_part_def split: option.splits)

lemma sorted_all_image_filenames:
  "sorted (map get_numeric_part (all_image_filenames listing))"
  by (simp add: all_image_filenames_def)

lemma mset_all_image_filenames:
  "mset (all_image_filenames listing) = mset (filter is_image_file listing)"
  by (simp add: all_image_filenames_def)

lemma unmatched_after_matched:
  assumes "sorted (map get_numeric_part fs)" and "i < length fs" and "j < length fs"
    and "search (fs ! i) \<noteq> None" and "search (fs ! j) = None"
  shows "i < j"
proof (rule ccontr)
  assume "\<not> i < j"
  then have "j \<le> i" by simp
  with assms(1,2) have "map get_numeric_part fs ! j \<le> map get_numeric_part fs ! i"
    by (simp add: sorted_iff_nth_mono)
  with assms(2,3) have "get_numeric_part (fs ! j) \<le> get_numeric_part (fs ! i)" by simp
  moreover have "get_numeric_part (fs ! j) = \<infinity>"
    using assms(5) by (simp add: get_numeric_part_infinity)
  moreover have "get_numeric_part (fs ! i) \<noteq> \<infinity>"
    using assms(4) by (simp add: get_numeric_part_infinity)
  ultimately show False by simp
qed

text \<open>
  C7. The image files are enumerated in ascending order of their numeric part; a file
  whose name the pattern does not match comes after every file whose name it matches; the
  enumeration holds exactly the image files of the listing; and the numeric part of a name
  that ends in a maximal run of digits, a dot and an extension of word characters is the
  number those digits write.
\<close>

theorem layer_files_sorted_by_index:
  fixes listing :: "string list"
  defines "fs \<equiv> all_image_filenames listing"
  shows "sorted (map get_numeric_part fs) \<and>
    (\<forall>i j. i < length fs \<and> j < length fs \<and> search (fs ! i) \<noteq> None \<and> search (fs ! j) = None
       \<longrightarrow> i < j) \<and>
    mset fs = mset (filter is_image_file listing) \<and>
    (ds \<noteq> [] \<and> (\<forall>c\<in>set ds. is_digit c) \<and> ext \<noteq> [] \<and> (\<forall>c\<in>set ext. is_word c) \<and>
       (pre = [] \<or> \<not> is_digit (last pre))
       \<longrightarrow> get_numeric_part (pre @ ds @ CHR ''.'' # ext) = enat (int_of_digits ds))"
proof (intro conjI allI impI)
  show s: "sorted (map get_numeric_part fs)"
    unfolding fs_def by (rule sorted_all_image_filenames)
  show "mset fs = mset (filter is_image_file listing)"
    unfolding fs_def by (rule mset_all_image_filenames)
  show "i < j"
    if "i < length fs \<and> j < length fs \<and> search (fs ! i) \<noteq> None \<and> search (fs ! j) = None"
    for i j
    using s that by (blast intro: unmatched_after_matched)
  show "get_numeric_part (pre @ ds @ CHR ''.'' # ext) = enat (int_of_digits ds)"
    if "ds \<noteq> [] \<and> (\<forall>c\<in>set ds. is_digit c) \<and> ext \<noteq> [] \<and> (\<forall>c\<in>set ext. is_word c) \<and>
       (pre = [] \<or> \<not> is_digit (last pre))"
    using that by (intro get_numeric_part_trailing_digits) simp_all
qed

theorem layer_files_sorted_by_index_witness:
  "all_image_filenames [''b10.png'', ''a2.PNG'', ''x.png'', ''c1.bmp'', ''d3.txt'', ''y.tiff''] =
     [''c1.bmp'', ''a2.PNG'', ''b10.png'', ''x.png'', ''y.tiff''] \<and>
   search ''b10.png'' \<noteq> None \<and> search ''x.png'' = None \<and> (2::nat) < 3 \<and>
   get_numeric_part ''layer_0012.png'' = enat 12"
proof -
  let ?l = "[''b10.png'', ''a2.PNG'', ''x.png'', ''c1.bmp'', ''d3.txt'', ''y.tiff'']"
  have a: "all_image_filenames ?l = [''c1.bmp'', ''a2.PNG'', ''b10.png'', ''x.png'', ''y.tiff'']"
    by code_simp
  have b: "search ''b10.png'' \<noteq> None" "search ''x.png'' = None"
    by code_simp+
  have c: "int_of_digits ''0012'' = 12" by code_simp
  have d: "\<forall>c\<in>set ''0012''. is_digit c" "\<forall>c\<in>set ''png''. is_word c" "\<not> is_digit (last ''layer_'')"
    by (simp_all add: is_digit_def is_word_def)
  show ?thesis
    using layer_files_sorted_by_index [of ?l "''0012''" "''png''" "''layer_''"] a b c d
    by simp
qed

lemma in_index_range_both:
  "in_index_range (Some a) (Some b) f \<longleftrightarrow>
   (\<exists>n. get_numeric_part f = enat n \<and> a \<le> int n \<and> int n \<le> b)"
  by (cases "get_numeric_part f")
     (auto simp: in_index_range_def numeric_less_def numeric_greater_def Let_def)

lemma keys_of_filtered:
  "map get_numeric_part (image_filenames_filtered (Some a) (Some b) listing) =
   filter (\<lambda>k. \<exists>n. k = enat n \<and> a \<le> int n \<and> int n \<le> b)
     (map get_numeric_part (all_image_filenames listing))"
proof -
  have "in_index_range (Some a) (Some b) =
        (\<lambda>f. \<exists>n. get_numeric_part f = enat n \<and> a \<le> int n \<and> int n \<le> b)"
    by (rule ext) (rule in_index_range_both)
  then show ?thesis
    by (simp add: image_filenames_filtered_def filter_map comp_def)
qed

text \<open>
  C5. With both \<^verbatim>\<open>start_index\<close> and \<^verbatim>\<open>stop_index\<close> configured, the files kept are
  exactly the image files whose name embeds an index \<open>n\<close> with
  \<open>start_index \<le> n \<le> stop_index\<close>, in the sorted order; on a sequence indexed 0 to 30,
  a start of 10 and a stop of 20 keep the 11 layers 10 to 20.
\<close>

theorem index_range_inclusive:
  "image_filenames_filtered (Some a) (Some b) listing =
     filter (\<lambda>f. \<exists>n. get_numeric_part f = enat n \<and> a \<le> int n \<and> int n \<le> b)
       (all_image_filenames listing) \<and>
   (f \<in> set (image_filenames_filtered (Some a) (Some b) listing) \<longleftrightarrow>
      f \<in> set listing \<and> is_image_file f \<and>
      (\<exists>n. get_numeric_part f = enat n \<and> a \<le> int n \<and> int n \<le> b)) \<and>
   (map get_numeric_part (all_image_filenames listing) = map enat [0..<31] \<longrightarrow>
      map get_numeric_part (image_filenames_filtered (Some 10) (Some 20) listing) =
        map enat [10..<21] \<and>
      length (image_filenames_filtered (Some 10) (Some 20) listing) = 11)"
proof (intro conjI impI)
  show e: "image_filenames_filtered (Some a) (Some b) listing =
     filter (\<lambda>f. \<exists>n. get_numeric_part f = enat n \<and> a \<le> int n \<and> int n \<le> b)
       (all_image_filenames listing)"
    by (simp add: image_filenames_filtered_def in_index_range_both cong: filter_cong)
  show "f \<in> set (image_filenames_filtered (Some a) (Some b) listing) \<longleftrightarrow>
      f \<in> set listing \<and> is_image_file f \<and>
      (\<exists>n. get_numeric_part f = enat n \<and> a \<le> int n \<and> int n \<le> b)"
    by (auto simp: e all_image_filenames_def)
  assume k: "map get_numeric_part (all_image_filenames listing) = map enat [0..<31]"
  have "map get_numeric_part (image_filenames_filtered (Some 10) (Some 20) listing) =
        filter (\<lambda>k. \<exists>n. k = enat n \<and> 10 \<le> int n \<and> int n \<le> 20) (map enat [0..<31])"
    by (simp only: keys_of_filtered k)
  also have "\<dots> = map enat (filter (\<lambda>n. 10 \<le> n \<and> n \<le> 20) [0..<31])"
    by (simp add: filter_map comp_def)
  also have "filter (\<lambda>n. 10 \<le> n \<and> n \<le> 20) [0..<31] = [10..<21]"
    by code_simp
  finally show m: "map get_numeric_part (image_filenames_filtered (Some 10) (Some 20) listing) =
        map enat [10..<21]" .
  have "length (map get_numeric_part (image_filenames_filtered (Some 10) (Some 20) listing)) = 11"
    by (simp only: m) simp
  then show "length (image_filenames_filtered (Some 10) (Some 20) listing) = 11" by simp
qed


theorem index_range_inclusive_witness:
  "map get_numeric_part (all_image_filenames example_listing) = map enat [0..<31] \<and>
   map get_numeric_part (image_filenames_filtered (Some 10) (Some 20) example_listing) =
     map enat [10..<21] \<and>
   length (image_filenames_filtered (Some 10) (Some 20) example_listing) = 11"
proof -
  have k: "map get_numeric_part (all_image_filenames example_listing) = map enat [0..<31]"
    unfolding example_listing_def by code_simp
  from index_range_inclusive [of 10 20 example_listing]
  have "map get_numeric_part (all_image_filenames example_listing) = map enat [0..<31] \<longrightarrow>
      map get_numeric_part (image_filenames_filtered (Some 10) (Some 20) example_listing) =
        map enat [10..<21] \<and>
      length (image_filenames_filtered (Some 10) (Some 20) example_listing) = 11"
    by blast
  with k show ?thesis by blast
qed

lemma emit_fields [simp]:
  "is_running (emit e s) = is_running s"
  "session_temp_folder (emit e s) = session_temp_folder s"
  "heap (emit e s) = heap s"
  "prior_binary_masks_cache (emit e s) = prior_binary_masks_cache s"
  "tracker (emit e s) = tracker s"
  "active_futures (emit e s) = active_futures s"
  "processed_count (emit e s) = processed_count s"
  "files (emit e s) = files s"
  "events (emit e s) = events s @ [e]"
  by (simp_all add: emit_def)

lemma running_emit [simp]: "running env pt (emit e s) = running env pt s"
  by (simp add: running_def)

text \<open>What one layer of the submission loop does to each part of the state.\<close>

lemma submit_layer_unloadable:
  assumes "load_image env (path_join ip f) = None"
  shows "submit_layer env cfg ip op t i f s =
         emit (status_update (Skipping_unloadable_image f))
           (emit (status_update (Analyzing f (i + 1) t)) s)"
  using assms by (simp add: submit_layer_def)

lemma submit_layer_kept [simp]:
  "is_running (submit_layer env cfg ip op t i f s) = is_running s"
  "session_temp_folder (submit_layer env cfg ip op t i f s) = session_temp_folder s"
  "prior_binary_masks_cache (submit_layer env cfg ip op t i f s) = prior_binary_masks_cache s"
  "processed_count (submit_layer env cfg ip op t i f s) = processed_count s"
  "files (submit_layer env cfg ip op t i f s) = files s"
  by (simp_all add: submit_layer_def Let_def split: option.splits prod.splits)

lemma submit_layer_heap:
  "heap (submit_layer env cfg ip op t i f s) =
     (case load_image env (path_join ip f) of
        None \<Rightarrow> heap s
      | Some (binary, original) \<Rightarrow>
          (heap s @ [deque_copy (heap s ! prior_binary_masks_cache s)])
            [prior_binary_masks_cache s :=
               deque_append ((heap s @ [deque_copy (heap s ! prior_binary_masks_cache s)]) !
                 prior_binary_masks_cache s) binary])"
  by (simp add: submit_layer_def Let_def split: option.splits prod.splits)

lemma submit_layer_futures:
  "\<exists>rc. active_futures (submit_layer env cfg ip op t i f s) =
     (case load_image env (path_join ip f) of
        None \<Rightarrow> active_futures s
      | Some (binary, original) \<Rightarrow>
          active_futures s @
            [\<lparr>filepath = path_join ip f, binary_image = binary, original_image = original,
              classified_rois = rc, prior_binary_masks_snapshot = length (heap s),
              task_output_folder = op, task_debug_save = debug_save cfg, cancelled = False\<rparr>])"
  by (simp add: submit_layer_def Let_def split: option.splits prod.splits)

lemma submit_layer_events:
  "events (submit_layer env cfg ip op t i f s) =
     events s @ status_update (Analyzing f (i + 1) t) #
       (case load_image env (path_join ip f) of
          None \<Rightarrow> [status_update (Skipping_unloadable_image f)]
        | Some bo \<Rightarrow> [submit_call (path_join ip f)])"
  by (simp add: submit_layer_def Let_def split: option.splits prod.splits)

lemma pushes_snoc: "deque_append (pushes n xs) x = pushes n (xs @ [x])"
  by (simp add: pushes_def)

lemma snapshots_ok_step:
  assumes ok: "snapshots_ok n hp c snaps masks"
  shows "snapshots_ok n ((hp @ [deque_copy (hp ! c)])[c := deque_append (hp ! c) b]) c
           (snaps @ [length hp]) (masks @ [b])"
  unfolding snapshots_ok_def
proof (intro conjI allI impI)
  from ok have c: "c < length hp" and hc: "hp ! c = pushes n masks"
    and len: "length snaps = length masks"
    and old: "\<And>k. k < length snaps \<Longrightarrow> snaps ! k < length hp \<and> snaps ! k \<noteq> c \<and>
        hp ! (snaps ! k) = deque_copy (pushes n (take k masks))"
    by (simp_all add: snapshots_ok_def)
  let ?hp = "(hp @ [deque_copy (hp ! c)])[c := deque_append (hp ! c) b]"
  show "c < length ?hp" using c by simp
  show "?hp ! c = pushes n (masks @ [b])"
    using c by (simp add: hc pushes_snoc)
  show "length (snaps @ [length hp]) = length (masks @ [b])" using len by simp
  fix k assume k: "k < length (snaps @ [length hp])"
  show "(snaps @ [length hp]) ! k < length ?hp"
    using k old [of k] by (cases "k < length snaps") (auto simp: nth_append)
  show "(snaps @ [length hp]) ! k \<noteq> c"
    using k old [of k] c by (cases "k < length snaps") (auto simp: nth_append)
  show "?hp ! ((snaps @ [length hp]) ! k) = deque_copy (pushes n (take k (masks @ [b])))"
  proof (cases "k < length snaps")
    case True
    with old [of k] len show ?thesis by (simp add: nth_append)
  next
    case False
    with k have "k = length snaps" by simp
    with c len show ?thesis by (simp add: nth_append hc)
  qed
qed

lemma submit_layer_snapshots:
  "snapshots_of (submit_layer env cfg ip op t i f s) =
     (case load_image env (path_join ip f) of
        None \<Rightarrow> snapshots_of s | Some bo \<Rightarrow> snapshots_of s @ [length (heap s)])"
  using submit_layer_futures [of env cfg ip op t i f s]
  by (auto simp: snapshots_of_def split: option.splits)

lemma submit_layer_masks:
  "masks_of (submit_layer env cfg ip op t i f s) =
     (case load_image env (path_join ip f) of
        None \<Rightarrow> masks_of s | Some bo \<Rightarrow> masks_of s @ [fst bo])"
  using submit_layer_futures [of env cfg ip op t i f s]
  by (auto simp: masks_of_def split: option.splits)

lemma state_ok_submit_layer:
  assumes "state_ok n s"
  shows "state_ok n (submit_layer env cfg ip op t i f s)"
proof (cases "load_image env (path_join ip f)")
  case None
  with assms show ?thesis
    by (simp add: state_ok_def submit_layer_heap submit_layer_snapshots submit_layer_masks)
next
  case (Some bo)
  obtain b o' where bo: "bo = (b, o')" by (cases bo)
  from assms have c: "prior_binary_masks_cache s < length (heap s)"
    by (simp add: state_ok_def snapshots_ok_def)
  from assms have "snapshots_ok n (heap s) (prior_binary_masks_cache s) (snapshots_of s) (masks_of s)"
    by (simp add: state_ok_def)
  from snapshots_ok_step [OF this, of b] show ?thesis
    using c by (simp add: state_ok_def submit_layer_heap submit_layer_snapshots
        submit_layer_masks Some bo nth_append)
qed

lemma state_ok_emit [simp]: "state_ok n (emit e s) = state_ok n s"
  by (simp add: state_ok_def snapshots_of_def masks_of_def)

lemma state_ok_submit_loop:
  "state_ok n s \<Longrightarrow> state_ok n (submit_loop env cfg ip op t i fs s)"
  by (induction fs arbitrary: i s) (simp_all add: state_ok_submit_layer)

lemma submit_layer_frame:
  assumes "a < length (heap s)" and "a \<noteq> prior_binary_masks_cache s"
  shows "heap (submit_layer env cfg ip op t i f s) ! a = heap s ! a"
    and "a < length (heap (submit_layer env cfg ip op t i f s))"
  using assms by (simp_all add: submit_layer_heap nth_append split: option.splits prod.splits)

lemma submit_loop_cache [simp]:
  "prior_binary_masks_cache (submit_loop env cfg ip op t i fs s) = prior_binary_masks_cache s"
  by (induction fs arbitrary: i s) simp_all

lemma submit_loop_frame:
  assumes "a < length (heap s)" and "a \<noteq> prior_binary_masks_cache s"
  shows "heap (submit_loop env cfg ip op t i fs s) ! a = heap s ! a"
  using assms
proof (induction fs arbitrary: i s)
  case Nil
  then show ?case by simp
next
  case (Cons f fs)
  show ?case
  proof (cases "running env (At_submit i) s")
    case False
    then show ?thesis by simp
  next
    case True
    let ?s = "submit_layer env cfg ip op t i f s"
    have "heap (submit_loop env cfg ip op t (i + 1) fs ?s) ! a = heap ?s ! a"
      using Cons.prems by (intro Cons.IH) (simp_all add: submit_layer_frame)
    also have "\<dots> = heap s ! a" using Cons.prems by (rule submit_layer_frame)
    finally show ?thesis using True by simp
  qed
qed

text \<open>The flag and the user's stop.\<close>

lemma point_le_trans: "point_le p q \<Longrightarrow> point_le q r \<Longrightarrow> point_le p r"
  by (auto simp: point_le_def)

lemma stop_requested_mono:
  "stop_requested env p \<Longrightarrow> point_le p q \<Longrightarrow> stop_requested env q"
  by (auto simp: stop_requested_def split: option.splits intro: point_le_trans)

lemma point_le_simps [simp]:
  "point_le (At_submit i) (At_submit i') \<longleftrightarrow> i \<le> i'"
  "point_le (At_submit i) (At_result j)"
  "point_le (At_submit i) At_repack"
  "point_le (At_submit i) At_final"
  "point_le (At_result j) (At_result j') \<longleftrightarrow> j \<le> j'"
  "point_le (At_result j) At_repack"
  "point_le (At_result j) At_final"
  "point_le At_repack At_final"
  "\<not> point_le (At_result j) (At_submit i)"
  "\<not> point_le At_repack (At_submit i)"
  "\<not> point_le At_final (At_submit i)"
  "\<not> point_le At_repack (At_result j)"
  "\<not> point_le At_final (At_result j)"
  "\<not> point_le At_final At_repack"
  "point_le p p"
  by (simp_all add: point_le_def)

lemma length_tasks_of [simp]: "length (tasks_of s) = length (active_futures s)"
  by (simp add: tasks_of_def)

lemma snapshots_of_tasks: "snapshots_of s = map prior_binary_masks_snapshot (tasks_of s)"
  by (simp add: snapshots_of_def tasks_of_def comp_def)

lemma masks_of_tasks: "masks_of s = map binary_image (tasks_of s)"
  by (simp add: masks_of_def tasks_of_def comp_def)

lemma task_by_image:
  "process_single_image_task env cfg hp fut fs =
     (case task_image env cfg hp fut of
        Inl e \<Rightarrow> (Inl e, fs)
      | Inr img \<Rightarrow>
          (Inr (path_join (task_output_folder fut) (basename (filepath fut))),
           fs(path_join (task_output_folder fut) (basename (filepath fut)) \<mapsto> img)))"
  by (simp add: process_single_image_task_def task_image_def Let_def
      split: sum.splits split del: if_split)

lemma task_image_ignores_cancelled:
  "task_image env cfg hp (fut\<lparr>cancelled := b\<rparr>) = task_image env cfg hp fut"
  by (simp add: task_image_def cong: sum.case_cong)

lemma task_ignores_cancelled:
  "process_single_image_task env cfg hp (fut\<lparr>cancelled := b\<rparr>) fs =
   process_single_image_task env cfg hp fut fs"
  by (simp add: task_by_image task_image_ignores_cancelled cong: sum.case_cong)

lemma future_result_tasks:
  assumes "k < length (active_futures s)"
  shows "future_result env cfg s k =
         fst (process_single_image_task env cfg (heap s) (tasks_of s ! k) Map.empty)"
  using assms by (simp add: future_result_def tasks_of_def task_ignores_cancelled)

text \<open>\<^verbatim>\<open>cancel\<close> on every future.\<close>

lemma length_cancel_all [simp]: "length (cancel_all env fin futs) = length futs"
  by (simp add: cancel_all_def)

lemma nth_cancel_all:
  assumes "k < length futs"
  shows "cancel_all env fin futs ! k =
         (if pending_at_cancel env k \<and> k \<notin> set fin then (futs ! k)\<lparr>cancelled := True\<rparr>
          else futs ! k)"
  using assms by (simp add: cancel_all_def nth_enumerate_eq)

lemma uncancel_cancel_all:
  "map (\<lambda>fut. fut\<lparr>cancelled := False\<rparr>) (cancel_all env fin futs) =
   map (\<lambda>fut. fut\<lparr>cancelled := False\<rparr>) futs"
  by (rule nth_equalityI) (simp_all add: nth_cancel_all)

text \<open>The worker's task.\<close>

lemma task_result_files:
  "fst (process_single_image_task env cfg hp fut fs) =
   fst (process_single_image_task env cfg hp fut fs')"
  by (simp add: task_by_image split: sum.splits)



lemma stop_requested_at_submit:
  "stop_requested env (At_submit i) \<longleftrightarrow> (\<exists>q. user_stop env = Some (At_submit q) \<and> q \<le> i)"
proof (cases "user_stop env")
  case None
  then show ?thesis by (simp add: stop_requested_def)
next
  case (Some pt)
  then show ?thesis by (cases pt) (simp_all add: stop_requested_def)
qed

lemma submit_loop_is_running [simp]:
  "is_running (submit_loop env cfg ip op t i fs s) = is_running s"
  by (induction fs arbitrary: i s) simp_all

lemma submit_layers_is_running [simp]:
  "is_running (submit_layers env cfg ip op t i fs s) = is_running s"
  by (induction fs arbitrary: i s) simp_all

lemma submit_loop_reached:
  assumes "is_running s"
  shows "submit_loop env cfg ip op t i fs s =
         (if layers_reached env i (length fs) < length fs
          then emit (status_update Processing_stopped_by_user)
                 (submit_layers env cfg ip op t i (take (layers_reached env i (length fs)) fs) s)
          else submit_layers env cfg ip op t i fs s)"
  using assms
proof (induction fs arbitrary: i s)
  case Nil
  then show ?case by simp
next
  case (Cons f fs)
  show ?case
  proof (cases "stop_requested env (At_submit i)")
    case True
    then obtain q where q: "user_stop env = Some (At_submit q)" "q \<le> i"
      by (auto simp: stop_requested_at_submit)
    with True Cons.prems show ?thesis by (simp add: running_def layers_reached_def)
  next
    case False
    let ?s = "submit_layer env cfg ip op t i f s"
    have r: "is_running ?s" using Cons.prems by simp
    note ih = Cons.IH [OF r, of "i + 1"]
    have m: "layers_reached env i (Suc (length fs)) = Suc (layers_reached env (Suc i) (length fs))"
    proof (cases "user_stop env")
      case None
      then show ?thesis by (simp add: layers_reached_def)
    next
      case (Some pt)
      show ?thesis
      proof (cases pt)
        case (At_submit q)
        with False Some have iq: "i < q" by (simp add: stop_requested_at_submit)
        then have "min (q - i) (Suc (length fs)) = Suc (min (q - Suc i) (length fs))"
          by (simp add: min_def) linarith
        with Some At_submit show ?thesis by (simp add: layers_reached_def)
      qed (use Some in \<open>simp_all add: layers_reached_def\<close>)
    qed
    show ?thesis using False Cons.prems ih by (simp add: running_def m)
  qed
qed

lemma submit_layer_events_loadable:
  "events (submit_layer env cfg ip op t i f s) =
     events s @ [status_update (Analyzing f (i + 1) t),
       if loadable env ip f then submit_call (path_join ip f)
       else status_update (Skipping_unloadable_image f)]"
  by (simp add: submit_layer_events loadable_def split: option.splits)

lemma submit_layers_events:
  "events (submit_layers env cfg ip op t i fs s) = events s @ layer_events env ip t i fs"
  by (induction fs arbitrary: i s) (simp_all add: submit_layer_events_loadable)

lemma submits_append [simp]: "submits (xs @ ys) = submits xs @ submits ys"
  by (simp add: submits_def)

lemma submits_Cons: "submits (ev # evs) = submit_path ev @ submits evs"
  by (simp add: submits_def)

lemma submits_Nil [simp]: "submits [] = []"
  by (simp add: submits_def)

lemma submits_layer_events:
  "submits (layer_events env ip t i fs) = map (path_join ip) (filter (loadable env ip) fs)"
  by (induction fs arbitrary: i) (simp_all add: submits_Cons)

lemma layer_events_kinds:
  "ev \<in> set (layer_events env ip t i fs) \<Longrightarrow>
   (\<exists>st. ev = status_update st) \<or> (\<exists>f \<in> set fs. loadable env ip f \<and> ev = submit_call (path_join ip f))"
  by (induction fs arbitrary: i) (auto split: if_splits)

lemma layer_events_skipping:
  "f \<in> set fs \<Longrightarrow> \<not> loadable env ip f \<Longrightarrow>
   status_update (Skipping_unloadable_image f) \<in> set (layer_events env ip t i fs)"
  by (induction fs arbitrary: i) auto

lemma submit_layer_futures_cases:
  "(\<not> loadable env ip f \<and>
      active_futures (submit_layer env cfg ip op t i f s) = active_futures s) \<or>
   (loadable env ip f \<and>
      (\<exists>fut. active_futures (submit_layer env cfg ip op t i f s) = active_futures s @ [fut] \<and>
         filepath fut = path_join ip f \<and> as_submitted env cfg op fut \<and> \<not> cancelled fut))"
proof (cases "load_image env (path_join ip f)")
  case None
  then show ?thesis
    using submit_layer_futures [of env cfg ip op t i f s] by (simp add: loadable_def)
next
  case (Some bo)
  obtain b o' where bo: "bo = (b, o')" by (cases bo)
  from submit_layer_futures [of env cfg ip op t i f s] Some bo
  obtain rc where "active_futures (submit_layer env cfg ip op t i f s) = active_futures s @
     [\<lparr>filepath = path_join ip f, binary_image = b, original_image = o',
       classified_rois = rc, prior_binary_masks_snapshot = length (heap s),
       task_output_folder = op, task_debug_save = debug_save cfg, cancelled = False\<rparr>]"
    by auto
  then show ?thesis using Some bo by (simp add: loadable_def as_submitted_def)
qed

lemma submit_layers_futures:
  assumes "\<forall>fut \<in> set (active_futures s). as_submitted env cfg op fut \<and> \<not> cancelled fut"
  shows "(\<forall>fut \<in> set (active_futures (submit_layers env cfg ip op t i fs s)).
            as_submitted env cfg op fut \<and> \<not> cancelled fut) \<and>
         map filepath (active_futures (submit_layers env cfg ip op t i fs s)) =
           map filepath (active_futures s) @ map (path_join ip) (filter (loadable env ip) fs)"
  using assms
proof (induction fs arbitrary: i s)
  case Nil
  then show ?case by simp
next
  case (Cons f fs)
  let ?s = "submit_layer env cfg ip op t i f s"
  from submit_layer_futures_cases [of env ip f cfg op t i s]
  show ?case
  proof (elim disjE conjE exE)
    assume n: "\<not> loadable env ip f" and a: "active_futures ?s = active_futures s"
    have "\<forall>fut \<in> set (active_futures ?s). as_submitted env cfg op fut \<and> \<not> cancelled fut"
      using Cons.prems a by simp
    from Cons.IH [OF this, of "i + 1"] show ?thesis using n a by simp
  next
    fix fut
    assume l: "loadable env ip f" and a: "active_futures ?s = active_futures s @ [fut]"
      and f: "filepath fut = path_join ip f" "as_submitted env cfg op fut" "\<not> cancelled fut"
    have "\<forall>fut \<in> set (active_futures ?s). as_submitted env cfg op fut \<and> \<not> cancelled fut"
      using Cons.prems a f by simp
    from Cons.IH [OF this, of "i + 1"] show ?thesis using l a f by simp
  qed
qed

lemma submit_layers_kept [simp]:
  "session_temp_folder (submit_layers env cfg ip op t i fs s) = session_temp_folder s"
  "prior_binary_masks_cache (submit_layers env cfg ip op t i fs s) = prior_binary_masks_cache s"
  "processed_count (submit_layers env cfg ip op t i fs s) = processed_count s"
  "files (submit_layers env cfg ip op t i fs s) = files s"
  by (induction fs arbitrary: i s) simp_all

lemma submit_loop_kept [simp]:
  "session_temp_folder (submit_loop env cfg ip op t i fs s) = session_temp_folder s"
  "processed_count (submit_loop env cfg ip op t i fs s) = processed_count s"
  "files (submit_loop env cfg ip op t i fs s) = files s"
  by (induction fs arbitrary: i s) simp_all

lemma future_result_cong:
  "heap s' = heap s \<Longrightarrow> active_futures s' = active_futures s \<Longrightarrow>
   future_result env cfg s' k = future_result env cfg s k"
  by (simp add: future_result_def)

lemma future_result_simps [simp]:
  "future_result env cfg (emit ev s) k = future_result env cfg s k"
  "future_result env cfg (s\<lparr>processed_count := n\<rparr>) k = future_result env cfg s k"
  by (simp_all add: future_result_def)

lemma completion_loop_stopped:
  "\<not> running env (At_result j) s \<Longrightarrow> completion_loop env cfg t j ord fin s = s"
  by (cases ord) simp_all

lemma completion_loop_kept [simp]:
  "heap (completion_loop env cfg t j ord fin s) = heap s"
  "prior_binary_masks_cache (completion_loop env cfg t j ord fin s) = prior_binary_masks_cache s"
  "session_temp_folder (completion_loop env cfg t j ord fin s) = session_temp_folder s"
  "files (completion_loop env cfg t j ord fin s) = files s"
  "tasks_of (completion_loop env cfg t j ord fin s) = tasks_of s"
  by (induction ord arbitrary: j fin s)
     (simp_all add: Let_def tasks_of_def uncancel_cancel_all split: sum.splits)

lemma completion_loop_ok:
  assumes "is_running s"
    and "\<forall>k \<in> set ord. \<exists>p. future_result env cfg s k = Inr p"
    and "\<forall>j' < length ord. \<not> stop_requested env (At_result (j + j'))"
  shows "completion_loop env cfg t j ord fin s =
         s\<lparr>processed_count := processed_count s + length ord,
           events := events s @ completion_events (processed_count s) t (length ord)\<rparr>"
  using assms
proof (induction ord arbitrary: j fin s)
  case Nil
  then show ?case by simp
next
  case (Cons k ord)
  from Cons.prems(2) obtain p where p: "future_result env cfg s k = Inr p" by auto
  from Cons.prems(3) have r: "running env (At_result j) s"
    using Cons.prems(1) by (auto simp: running_def)
  let ?s = "emit (progress_update (processed_count s + 1) t)
              (emit (status_update (Completed_processing_images (processed_count s + 1) t))
                (s\<lparr>processed_count := processed_count s + 1\<rparr>))"
  have 1: "is_running ?s" using Cons.prems(1) by simp
  have 2: "\<forall>k \<in> set ord. \<exists>p. future_result env cfg ?s k = Inr p"
    using Cons.prems(2) by simp
  have 3: "\<forall>j' < length ord. \<not> stop_requested env (At_result (j + 1 + j'))"
    using Cons.prems(3) by auto
  have "completion_loop env cfg t j (k # ord) fin s =
        completion_loop env cfg t (j + 1) ord (fin @ [k]) ?s"
    using r p by (simp add: Let_def)
  also note Cons.IH [OF 1 2 3]
  finally show ?case by (simp add: emit_def)
qed

lemma completion_loop_failed:
  assumes "is_running s"
    and "\<forall>k \<in> set pre. \<exists>p. future_result env cfg s k = Inr p"
    and "future_result env cfg s k = Inl e"
    and "\<not> stop_requested env (At_result (j + length pre))"
  shows "completion_loop env cfg t j (pre @ k # post) fin s =
         s\<lparr>processed_count := processed_count s + length pre,
           events := events s @ completion_events (processed_count s) t (length pre) @
             [error_signal (Task_failed e)],
           is_running := False,
           active_futures := cancel_all env (fin @ pre @ [k]) (active_futures s)\<rparr>"
  using assms
proof (induction pre arbitrary: j fin s)
  case Nil
  then show ?case by (simp add: running_def emit_def)
next
  case (Cons k' pre)
  from Cons.prems(2) obtain p where p: "future_result env cfg s k' = Inr p" by auto
  have "\<not> stop_requested env (At_result j)"
    using Cons.prems(4) stop_requested_mono [of env "At_result j" "At_result (j + length (k' # pre))"]
    by auto
  then have r: "running env (At_result j) s"
    using Cons.prems(1) by (simp add: running_def)
  let ?s = "emit (progress_update (processed_count s + 1) t)
              (emit (status_update (Completed_processing_images (processed_count s + 1) t))
                (s\<lparr>processed_count := processed_count s + 1\<rparr>))"
  have 1: "is_running ?s" using Cons.prems(1) by simp
  have 2: "\<forall>k \<in> set pre. \<exists>p. future_result env cfg ?s k = Inr p"
    using Cons.prems(2) by simp
  have 3: "future_result env cfg ?s k = Inl e" using Cons.prems(3) by simp
  have 4: "\<not> stop_requested env (At_result (j + 1 + length pre))"
    using Cons.prems(4) by simp
  have "completion_loop env cfg t j ((k' # pre) @ k # post) fin s =
        completion_loop env cfg t (j + 1) (pre @ k # post) (fin @ [k']) ?s"
    using r p by (simp add: Let_def)
  also note Cons.IH [OF 1 2 3 4]
  finally show ?case by (simp add: emit_def)
qed

text \<open>Leaving the \<^verbatim>\<open>with\<close> block.\<close>

lemma run_future_kept [simp]:
  "is_running (run_future env cfg s k) = is_running s"
  "session_temp_folder (run_future env cfg s k) = session_temp_folder s"
  "heap (run_future env cfg s k) = heap s"
  "prior_binary_masks_cache (run_future env cfg s k) = prior_binary_masks_cache s"
  "active_futures (run_future env cfg s k) = active_futures s"
  "processed_count (run_future env cfg s k) = processed_count s"
  "events (run_future env cfg s k) = events s"
  by (simp_all add: run_future_def Let_def)

lemma future_result_run_future [simp]:
  "future_result env cfg (run_future env cfg s k) k' = future_result env cfg s k'"
  by (simp add: future_result_def)

lemma dom_run_future:
  "p \<in> dom (files (run_future env cfg s k)) \<longleftrightarrow>
   p \<in> dom (files s) \<or>
   (\<not> cancelled (active_futures s ! k) \<and> future_result env cfg s k = Inr p)"
  by (auto simp: run_future_def Let_def future_result_def task_by_image split: sum.splits)

lemma foldl_run_future_kept [simp]:
  "is_running (foldl (run_future env cfg) s ks) = is_running s"
  "session_temp_folder (foldl (run_future env cfg) s ks) = session_temp_folder s"
  "heap (foldl (run_future env cfg) s ks) = heap s"
  "prior_binary_masks_cache (foldl (run_future env cfg) s ks) = prior_binary_masks_cache s"
  "active_futures (foldl (run_future env cfg) s ks) = active_futures s"
  "processed_count (foldl (run_future env cfg) s ks) = processed_count s"
  "events (foldl (run_future env cfg) s ks) = events s"
  by (induction ks arbitrary: s) simp_all

lemma dom_foldl_run_future:
  "p \<in> dom (files (foldl (run_future env cfg) s ks)) \<longleftrightarrow>
   p \<in> dom (files s) \<or>
   (\<exists>k \<in> set ks. \<not> cancelled (active_futures s ! k) \<and> future_result env cfg s k = Inr p)"
proof (induction ks arbitrary: s)
  case Nil
  then show ?case by simp
next
  case (Cons k ks)
  show ?case
    by (simp only: foldl_Cons Cons.IH dom_run_future run_future_kept future_result_run_future)
       auto
qed

lemma set_as_completed [simp]: "set (as_completed env n) = {0..<n}"
  by (simp add: as_completed_def)

lemma executor_shutdown_kept [simp]:
  "is_running (executor_shutdown env cfg s) = is_running s"
  "session_temp_folder (executor_shutdown env cfg s) = session_temp_folder s"
  "heap (executor_shutdown env cfg s) = heap s"
  "prior_binary_masks_cache (executor_shutdown env cfg s) = prior_binary_masks_cache s"
  "active_futures (executor_shutdown env cfg s) = active_futures s"
  "processed_count (executor_shutdown env cfg s) = processed_count s"
  "events (executor_shutdown env cfg s) = events s"
  by (simp_all add: executor_shutdown_def)

lemma dom_executor_shutdown:
  "p \<in> dom (files (executor_shutdown env cfg s)) \<longleftrightarrow>
   p \<in> dom (files s) \<or>
   (\<exists>k < length (active_futures s).
      \<not> cancelled (active_futures s ! k) \<and> future_result env cfg s k = Inr p)"
  by (auto simp: executor_shutdown_def dom_foldl_run_future)

lemma cleanup_kept [simp]:
  "is_running (cleanup env cfg s) = is_running s"
  "session_temp_folder (cleanup env cfg s) = session_temp_folder s"
  "heap (cleanup env cfg s) = heap s"
  "prior_binary_masks_cache (cleanup env cfg s) = prior_binary_masks_cache s"
  "active_futures (cleanup env cfg s) = active_futures s"
  "processed_count (cleanup env cfg s) = processed_count s"
  by (simp_all add: cleanup_def Let_def split: option.splits)

lemma cleanup_events_eq:
  "events (cleanup env cfg s) = events s @ cleanup_events env cfg (session_temp_folder s)"
  by (simp add: cleanup_def cleanup_events_def Let_def split: option.splits)

lemma cleanup_files:
  "files (cleanup env cfg s) =
     (if removes_temp env cfg (session_temp_folder s)
      then (\<lambda>p. if below (session_temp_folder s) p then None else files s p)
      else files s)"
  by (auto simp: cleanup_def removes_temp_def Let_def split: option.splits)

lemma finally_block_kept [simp]:
  "is_running (finally_block env cfg s) = is_running s"
  "session_temp_folder (finally_block env cfg s) = session_temp_folder s"
  "heap (finally_block env cfg s) = heap s"
  "prior_binary_masks_cache (finally_block env cfg s) = prior_binary_masks_cache s"
  "active_futures (finally_block env cfg s) = active_futures s"
  "processed_count (finally_block env cfg s) = processed_count s"
  "files (finally_block env cfg s) = files (cleanup env cfg s)"
  by (simp_all add: finally_block_def Let_def)

lemma finally_block_events:
  "events (finally_block env cfg s) =
     events s @ cleanup_events env cfg (session_temp_folder s) @
     [status_update (if is_running s \<and> \<not> stop_requested env At_final then Processing_complete
                     else Processing_stopped_by_user_or_error),
      finished_signal]"
  by (simp add: finally_block_def Let_def cleanup_events_eq running_def)

text \<open>The extraction and the repacking.\<close>

lemma locate_input_folder:
  "input_mode cfg \<noteq> ''uvtools'' \<Longrightarrow>
   locate_input env cfg s = Returned (input_folder cfg, output_folder cfg) s"
  by (simp add: locate_input_def)

lemma locate_input_returned:
  assumes "locate_input env cfg s = Returned (ip, op) s1"
  shows "is_running s1 = is_running s" and "heap s1 = heap s"
    and "active_futures s1 = active_futures s" and "files s1 = files s"
    and "op = (if input_mode cfg = ''uvtools'' then path_join (session_temp_folder s1) ''Output''
               else output_folder cfg)"
    and "events s1 = events s @
          (if input_mode cfg = ''uvtools''
           then [status_update Starting_extraction, extract_call (session_temp_folder s1),
                 status_update Extraction_completed]
           else [])"
  using assms
  by (auto simp: locate_input_def run_uvtools_extraction_def Let_def
      split: if_splits sum.splits outcome.splits)

lemma locate_input_raised:
  assumes "locate_input env cfg s = Raised e s'"
  shows "is_running s' = is_running s" and "heap s' = heap s"
    and "active_futures s' = active_futures s" and "files s' = files s"
    and "input_mode cfg = ''uvtools''"
    and "events s' = events s @
          [status_update Starting_extraction, extract_call (session_temp_folder s')]"
  using assms
  by (auto simp: locate_input_def run_uvtools_extraction_def Let_def
      split: if_splits sum.splits outcome.splits)

lemma run_uvtools_repack_returned:
  assumes "run_uvtools_repack env f s = Returned u s'"
  shows "is_running s' = is_running s" and "heap s' = heap s"
    and "prior_binary_masks_cache s' = prior_binary_masks_cache s"
    and "session_temp_folder s' = session_temp_folder s"
    and "active_futures s' = active_futures s" and "files s' = files s"
    and "\<exists>name. events s' = events s @
          [repack_call f, status_update Generating_operation_file,
           status_update Operation_file_generated, status_update Repacking_slice_file,
           status_update (Successfully_created name)]"
  using assms
  by (auto simp: run_uvtools_repack_def Let_def split: sum.splits)

lemma run_uvtools_repack_raised:
  assumes "run_uvtools_repack env f s = Raised e s'"
  shows "is_running s' = is_running s" and "heap s' = heap s"
    and "prior_binary_masks_cache s' = prior_binary_masks_cache s"
    and "session_temp_folder s' = session_temp_folder s"
    and "active_futures s' = active_futures s" and "files s' = files s"
    and "events s' = events s @ [repack_call f, status_update Generating_operation_file] \<or>
         events s' = events s @
          [repack_call f, status_update Generating_operation_file,
           status_update Operation_file_generated, status_update Repacking_slice_file]"
  using assms
  by (auto simp: run_uvtools_repack_def Let_def split: sum.splits)

text \<open>The submission phase.\<close>

lemma state_ok_fields:
  "heap s' = heap s \<Longrightarrow> prior_binary_masks_cache s' = prior_binary_masks_cache s \<Longrightarrow>
   tasks_of s' = tasks_of s \<Longrightarrow> state_ok n s' = state_ok n s"
  by (simp add: state_ok_def snapshots_of_tasks masks_of_tasks)

lemma state_ok_submit_phase: "state_ok (receding_layers cfg) (submit_phase env cfg ip op fns s)"
proof -
  let ?s1 = "s\<lparr>heap := heap s @ [deque_new (receding_layers cfg)],
               prior_binary_masks_cache := length (heap s), tracker := [],
               active_futures := []\<rparr>"
  have "state_ok (receding_layers cfg) ?s1"
    by (simp add: state_ok_def snapshots_ok_def snapshots_of_def masks_of_def pushes_def)
  then have "state_ok (receding_layers cfg)
               (submit_loop env cfg ip op (length fns) 0 fns ?s1)"
    by (rule state_ok_submit_loop)
  then show ?thesis
    by (simp add: submit_phase_def Let_def state_ok_def snapshots_of_def masks_of_def)
qed

lemma submit_phase_kept [simp]:
  "is_running (submit_phase env cfg ip op fns s) = is_running s"
  "session_temp_folder (submit_phase env cfg ip op fns s) = session_temp_folder s"
  "files (submit_phase env cfg ip op fns s) = files s"
  "processed_count (submit_phase env cfg ip op fns s) = 0"
  by (simp_all add: submit_phase_def Let_def)

lemma submit_phase_events:
  assumes "is_running s"
  shows "events (submit_phase env cfg ip op fns s) =
         events s @
         layer_events env ip (length fns) 0 (take (layers_reached env 0 (length fns)) fns) @
         (if layers_reached env 0 (length fns) < length fns
          then [status_update Processing_stopped_by_user] else [])"
proof -
  let ?s1 = "s\<lparr>heap := heap s @ [deque_new (receding_layers cfg)],
               prior_binary_masks_cache := length (heap s), tracker := [],
               active_futures := []\<rparr>"
  have r: "is_running ?s1" using assms by simp
  have le: "layers_reached env 0 (length fns) \<le> length fns"
    by (simp add: layers_reached_def split: option.splits point.splits)
  show ?thesis
    using le
    by (simp add: submit_phase_def Let_def submit_loop_reached [OF r] submit_layers_events)
qed

lemma submit_phase_futures:
  assumes "is_running s"
  shows "(\<forall>fut \<in> set (active_futures (submit_phase env cfg ip op fns s)).
            as_submitted env cfg op fut \<and> \<not> cancelled fut) \<and>
         map filepath (active_futures (submit_phase env cfg ip op fns s)) =
           map (path_join ip)
             (filter (loadable env ip) (take (layers_reached env 0 (length fns)) fns))"
proof -
  let ?s1 = "s\<lparr>heap := heap s @ [deque_new (receding_layers cfg)],
               prior_binary_masks_cache := length (heap s), tracker := [],
               active_futures := []\<rparr>"
  have r: "is_running ?s1" using assms by simp
  have e: "\<forall>fut \<in> set (active_futures ?s1). as_submitted env cfg op fut \<and> \<not> cancelled fut"
    by simp
  have le: "layers_reached env 0 (length fns) \<le> length fns"
    by (simp add: layers_reached_def split: option.splits point.splits)
  note f1 = submit_layers_futures [OF e, of ip "length fns" 0 fns]
  note f2 = submit_layers_futures [OF e, of ip "length fns" 0
      "take (layers_reached env 0 (length fns)) fns"]
  show ?thesis
  proof (cases "layers_reached env 0 (length fns) < length fns")
    case True
    with f2 show ?thesis
      by (simp add: submit_phase_def Let_def submit_loop_reached [OF r])
  next
    case False
    with le have "layers_reached env 0 (length fns) = length fns" by simp
    with f1 show ?thesis
      by (simp add: submit_phase_def Let_def submit_loop_reached [OF r])
  qed
qed

text \<open>The run, by the way it goes.\<close>

lemma start_state_fields [simp]:
  "is_running start_state" "active_futures start_state = []" "heap start_state = []"
  "files start_state = Map.empty" "events start_state = [status_update Processing_started]"
  "session_temp_folder start_state = []"
  by (simp_all add: start_state_def initial_state_def)

lemma completion_phase_kept [simp]:
  "heap (completion_phase env cfg t s) = heap s"
  "prior_binary_masks_cache (completion_phase env cfg t s) = prior_binary_masks_cache s"
  "session_temp_folder (completion_phase env cfg t s) = session_temp_folder s"
  "files (completion_phase env cfg t s) = files s"
  "tasks_of (completion_phase env cfg t s) = tasks_of s"
  by (simp_all add: completion_phase_def)

lemma tasks_of_cong: "active_futures s' = active_futures s \<Longrightarrow> tasks_of s' = tasks_of s"
  by (simp add: tasks_of_def)

lemma tasks_of_simps [simp]:
  "tasks_of (emit ev s) = tasks_of s"
  "tasks_of (executor_shutdown env cfg s) = tasks_of s"
  "tasks_of (finally_block env cfg s) = tasks_of s"
  by (simp_all add: tasks_of_def)

lemma length_futures_tasks: "tasks_of s' = tasks_of s \<Longrightarrow>
  length (active_futures s') = length (active_futures s)"
  by (metis length_tasks_of)

lemma process_layers_kept [simp]:
  "heap (process_layers env cfg ip op fns s) = heap (submit_phase env cfg ip op fns s)"
  "prior_binary_masks_cache (process_layers env cfg ip op fns s) =
     prior_binary_masks_cache (submit_phase env cfg ip op fns s)"
  "session_temp_folder (process_layers env cfg ip op fns s) = session_temp_folder s"
  "tasks_of (process_layers env cfg ip op fns s) = tasks_of (submit_phase env cfg ip op fns s)"
  by (simp_all add: process_layers_def)

lemma run_idle:
  assumes "(\<exists>e s'. locate_input env cfg start_state = Raised e s') \<or>
           (\<exists>ip op s1. locate_input env cfg start_state = Returned (ip, op) s1 \<and>
              filenames env cfg ip = [])"
  shows "active_futures (run env cfg) = []"
proof -
  from assms consider (raised) e s' where "locate_input env cfg start_state = Raised e s'"
    | (empty) ip op s1 where "locate_input env cfg start_state = Returned (ip, op) s1"
        "filenames env cfg ip = []"
    by blast
  then show ?thesis
  proof cases
    case raised
    from locate_input_raised(3) [OF raised] raised show ?thesis
      by (simp add: run_def try_body_def)
  next
    case empty
    from locate_input_returned(3) [OF empty(1)] empty show ?thesis
      by (simp add: run_def try_body_def filenames_def)
  qed
qed

lemma run_busy:
  assumes "locate_input env cfg start_state = Returned (ip, op) s1"
    and "filenames env cfg ip \<noteq> []"
  defines "s3 \<equiv> submit_phase env cfg ip op (filenames env cfg ip) s1"
  shows "heap (run env cfg) = heap s3"
    and "prior_binary_masks_cache (run env cfg) = prior_binary_masks_cache s3"
    and "tasks_of (run env cfg) = tasks_of s3"
    and "session_temp_folder (run env cfg) = session_temp_folder s1"
proof -
  let ?s2 = "process_layers env cfg ip op (filenames env cfg ip) s1"
  have "heap (run env cfg) = heap s3 \<and>
        prior_binary_masks_cache (run env cfg) = prior_binary_masks_cache s3 \<and>
        tasks_of (run env cfg) = tasks_of s3 \<and>
        session_temp_folder (run env cfg) = session_temp_folder s1"
  proof (cases "input_mode cfg = ''uvtools'' \<and> running env At_repack ?s2")
    case False
    then have "run env cfg = finally_block env cfg ?s2"
      using assms(1,2) by (auto simp: run_def try_body_def filenames_def Let_def)
    then show ?thesis by (simp add: s3_def)
  next
    case True
    show ?thesis
    proof (cases "run_uvtools_repack env op ?s2")
      case (Returned u s')
      then have "run env cfg = finally_block env cfg s'"
        using True assms(1,2) by (auto simp: run_def try_body_def filenames_def Let_def)
      moreover have "tasks_of s' = tasks_of ?s2"
        using run_uvtools_repack_returned(5) [OF Returned] by (rule tasks_of_cong)
      ultimately show ?thesis
        using run_uvtools_repack_returned(2,3,4) [OF Returned]
        by (simp add: s3_def)
    next
      case (Raised e s')
      then have "run env cfg =
                 finally_block env cfg (emit (error_signal (Error_in_processing_thread e)) s')"
        using True assms(1,2) by (auto simp: run_def try_body_def filenames_def Let_def)
      moreover have "tasks_of s' = tasks_of ?s2"
        using run_uvtools_repack_raised(5) [OF Raised] by (rule tasks_of_cong)
      ultimately show ?thesis
        using run_uvtools_repack_raised(2,3,4) [OF Raised]
        by (simp add: s3_def)
    qed
  qed
  then show "heap (run env cfg) = heap s3"
    and "prior_binary_masks_cache (run env cfg) = prior_binary_masks_cache s3"
    and "tasks_of (run env cfg) = tasks_of s3"
    and "session_temp_folder (run env cfg) = session_temp_folder s1"
    by simp_all
qed

lemma tasks_of_nth:
  assumes "tasks_of s' = tasks_of s" and "k < length (active_futures s')"
  shows "filepath (active_futures s' ! k) = filepath (active_futures s ! k)"
    and "binary_image (active_futures s' ! k) = binary_image (active_futures s ! k)"
    and "original_image (active_futures s' ! k) = original_image (active_futures s ! k)"
    and "prior_binary_masks_snapshot (active_futures s' ! k) =
         prior_binary_masks_snapshot (active_futures s ! k)"
    and "task_output_folder (active_futures s' ! k) = task_output_folder (active_futures s ! k)"
    and "task_debug_save (active_futures s' ! k) = task_debug_save (active_futures s ! k)"
proof -
  have len: "length (active_futures s) = length (active_futures s')"
    using assms(1) by (metis length_tasks_of)
  have "tasks_of s' ! k = tasks_of s ! k" using assms(1) by simp
  then have eq: "(active_futures s' ! k)\<lparr>cancelled := False\<rparr> =
                 (active_futures s ! k)\<lparr>cancelled := False\<rparr>"
    using assms(2) len by (simp add: tasks_of_def)
  show "filepath (active_futures s' ! k) = filepath (active_futures s ! k)"
    using arg_cong [OF eq, of filepath] by simp
  show "binary_image (active_futures s' ! k) = binary_image (active_futures s ! k)"
    using arg_cong [OF eq, of binary_image] by simp
  show "original_image (active_futures s' ! k) = original_image (active_futures s ! k)"
    using arg_cong [OF eq, of original_image] by simp
  show "prior_binary_masks_snapshot (active_futures s' ! k) =
        prior_binary_masks_snapshot (active_futures s ! k)"
    using arg_cong [OF eq, of prior_binary_masks_snapshot] by simp
  show "task_output_folder (active_futures s' ! k) = task_output_folder (active_futures s ! k)"
    using arg_cong [OF eq, of task_output_folder] by simp
  show "task_debug_save (active_futures s' ! k) = task_debug_save (active_futures s ! k)"
    using arg_cong [OF eq, of task_debug_save] by simp
qed

lemma state_ok_snapshot:
  assumes "state_ok n s" and "k < length (active_futures s)"
  shows "prior_binary_masks_snapshot (active_futures s ! k) \<noteq> prior_binary_masks_cache s"
    and "items (heap s ! prior_binary_masks_snapshot (active_futures s ! k)) =
         drop (k - n) (map binary_image (take k (active_futures s)))"
proof -
  from assms have "snapshots_of s ! k \<noteq> prior_binary_masks_cache s \<and>
      heap s ! (snapshots_of s ! k) = deque_copy (pushes n (take k (masks_of s)))"
    by (simp add: state_ok_def snapshots_ok_def snapshots_of_def)
  moreover have "snapshots_of s ! k = prior_binary_masks_snapshot (active_futures s ! k)"
    using assms(2) by (simp add: snapshots_of_def)
  moreover have "take k (masks_of s) = map binary_image (take k (active_futures s))"
    by (simp add: masks_of_def take_map)
  ultimately show "prior_binary_masks_snapshot (active_futures s ! k) \<noteq> prior_binary_masks_cache s"
    and "items (heap s ! prior_binary_masks_snapshot (active_futures s ! k)) =
         drop (k - n) (map binary_image (take k (active_futures s)))"
    using assms(2) by (simp_all add: deque_copy_def items_pushes)
qed

lemma run_state_ok: "active_futures (run env cfg) = [] \<or> state_ok (receding_layers cfg) (run env cfg)"
proof (cases "locate_input env cfg start_state")
  case (Raised e s')
  then show ?thesis using run_idle [of env cfg] by blast
next
  case (Returned v s1)
  obtain ip op where v: "v = (ip, op)" by (cases v)
  show ?thesis
  proof (cases "filenames env cfg ip = []")
    case True
    with Returned v show ?thesis using run_idle [of env cfg] by blast
  next
    case False
    note b = run_busy [OF Returned [unfolded v] False]
    have "state_ok (receding_layers cfg) (run env cfg) =
          state_ok (receding_layers cfg) (submit_phase env cfg ip op (filenames env cfg ip) s1)"
      using b(1,2,3) by (rule state_ok_fields)
    then show ?thesis by (simp add: state_ok_submit_phase)
  qed
qed

lemma run_as_submitted:
  assumes "k < length (active_futures (run env cfg))"
  shows "load_image env (filepath (active_futures (run env cfg) ! k)) =
         Some (binary_image (active_futures (run env cfg) ! k),
               original_image (active_futures (run env cfg) ! k))"
    and "task_output_folder (active_futures (run env cfg) ! k) =
         (if input_mode cfg = ''uvtools''
          then path_join (session_temp_folder (run env cfg)) ''Output''
          else output_folder cfg)"
proof -
  obtain ip op s1 where li: "locate_input env cfg start_state = Returned (ip, op) s1"
    and ne: "filenames env cfg ip \<noteq> []"
    using run_idle [of env cfg] assms
    by (cases "locate_input env cfg start_state") (auto, force)
  let ?s3 = "submit_phase env cfg ip op (filenames env cfg ip) s1"
  note b = run_busy [OF li ne]
  have len: "k < length (active_futures ?s3)"
    using assms b(3) by (metis length_tasks_of)
  have r: "is_running s1" using locate_input_returned(1) [OF li] by simp
  from submit_phase_futures [OF r, where env = env and cfg = cfg and op = op and ip = ip
      and fns = "filenames env cfg ip"] len
  have a: "as_submitted env cfg op (active_futures ?s3 ! k)" by simp
  note n = tasks_of_nth [OF b(3) assms]
  show "load_image env (filepath (active_futures (run env cfg) ! k)) =
         Some (binary_image (active_futures (run env cfg) ! k),
               original_image (active_futures (run env cfg) ! k))"
    using a by (simp add: n as_submitted_def)
  show "task_output_folder (active_futures (run env cfg) ! k) =
         (if input_mode cfg = ''uvtools''
          then path_join (session_temp_folder (run env cfg)) ''Output''
          else output_folder cfg)"
    using a locate_input_returned(5) [OF li] b(4) by (simp add: n as_submitted_def)
qed

text \<open>
  C1. In the state in which a run ends, the history snapshot of the \<open>k\<close>-th submitted
  layer is a deque other than the cache, and it holds the masks of the layers loaded and
  submitted before it, the last \<open>receding_layers\<close> of them in order, and so neither the
  mask of layer \<open>k\<close> nor a later one. When a layer is submitted, its snapshot holds what the
  cache held before the push of that layer's mask, and the rest of the loop changes no
  deque other than the cache.
\<close>

theorem snapshot_holds_preceding_masks:
  fixes env :: "('i, 'r) env" and cfg :: config
  defines "s \<equiv> run env cfg"
  defines "futs \<equiv> active_futures (run env cfg)"
  shows "(\<forall>k < length futs.
            load_image env (filepath (futs ! k)) =
              Some (binary_image (futs ! k), original_image (futs ! k)) \<and>
            prior_binary_masks_snapshot (futs ! k) \<noteq> prior_binary_masks_cache s \<and>
            items (heap s ! prior_binary_masks_snapshot (futs ! k)) =
              drop (k - receding_layers cfg) (map binary_image (take k futs))) \<and>
         (load_image env (path_join ip f) = Some (b, orig) \<and>
          prior_binary_masks_cache s0 < length (heap s0) \<longrightarrow>
            items (heap (submit_layer env cfg ip op t i f s0) !
                prior_binary_masks_snapshot (last (active_futures (submit_layer env cfg ip op t i f s0)))) =
              items (heap s0 ! prior_binary_masks_cache s0) \<and>
            heap (submit_layer env cfg ip op t i f s0) ! prior_binary_masks_cache s0 =
              deque_append (heap s0 ! prior_binary_masks_cache s0) b) \<and>
         (a < length (heap s0) \<and> a \<noteq> prior_binary_masks_cache s0 \<longrightarrow>
            heap (submit_loop env cfg ip op t i fs s0) ! a = heap s0 ! a)"
proof (intro conjI allI impI)
  fix k assume k: "k < length futs"
  then have ne: "active_futures (run env cfg) \<noteq> []" by (auto simp: futs_def)
  with run_state_ok [of env cfg] have ok: "state_ok (receding_layers cfg) (run env cfg)" by simp
  show "load_image env (filepath (futs ! k)) =
          Some (binary_image (futs ! k), original_image (futs ! k))"
    using k run_as_submitted(1) [of k env cfg] by (simp add: futs_def)
  show "prior_binary_masks_snapshot (futs ! k) \<noteq> prior_binary_masks_cache s"
    using state_ok_snapshot(1) [OF ok] k by (simp add: futs_def s_def)
  show "items (heap s ! prior_binary_masks_snapshot (futs ! k)) =
          drop (k - receding_layers cfg) (map binary_image (take k futs))"
    using state_ok_snapshot(2) [OF ok] k by (simp add: futs_def s_def)
next
  assume h: "load_image env (path_join ip f) = Some (b, orig) \<and>
          prior_binary_masks_cache s0 < length (heap s0)"
  from submit_layer_futures [of env cfg ip op t i f s0] h
  have "prior_binary_masks_snapshot (last (active_futures (submit_layer env cfg ip op t i f s0)))
        = length (heap s0)"
    by auto
  then show "items (heap (submit_layer env cfg ip op t i f s0) !
                prior_binary_masks_snapshot (last (active_futures (submit_layer env cfg ip op t i f s0)))) =
              items (heap s0 ! prior_binary_masks_cache s0)"
    using h by (simp add: submit_layer_heap nth_append deque_copy_def)
  show "heap (submit_layer env cfg ip op t i f s0) ! prior_binary_masks_cache s0 =
              deque_append (heap s0 ! prior_binary_masks_cache s0) b"
    using h by (simp add: submit_layer_heap nth_append)
next
  assume "a < length (heap s0) \<and> a \<noteq> prior_binary_masks_cache s0"
  then show "heap (submit_loop env cfg ip op t i fs s0) ! a = heap s0 ! a"
    by (simp add: submit_loop_frame)
qed


lemma basename_append:
  assumes "CHR ''/'' \<notin> set b" and "a = [] \<or> last a = CHR ''/''"
  shows "basename (a @ b) = b"
proof (cases "a = []")
  case True
  have "takeWhile (\<lambda>c. c \<noteq> CHR ''/'') (rev b) = rev b"
    using assms(1) by (auto simp: takeWhile_eq_all_conv)
  then have "rev (takeWhile (\<lambda>c. c \<noteq> CHR ''/'') (rev b)) = b"
    by (simp only: rev_rev_ident)
  with True show ?thesis by (simp only: basename_def append_Nil)
next
  case False
  with assms(2) obtain a' where a: "a = a' @ [CHR ''/'']"
    by (metis append_butlast_last_id)
  have "takeWhile (\<lambda>c. c \<noteq> CHR ''/'') (rev b @ CHR ''/'' # rev a') = rev b"
    using assms(1) by (subst takeWhile_append2) auto
  then show ?thesis by (simp add: basename_def a)
qed

lemma basename_path_join:
  assumes "CHR ''/'' \<notin> set b"
  shows "basename (path_join d b) = b"
proof -
  have nb: "\<not> (b \<noteq> [] \<and> hd b = CHR ''/'')" using assms by (cases b) auto
  show ?thesis
  proof (cases "d = [] \<or> last d = CHR ''/''")
    case True
    have "basename (d @ b) = b" using assms True by (rule basename_append)
    then show ?thesis using nb True by (auto simp: path_join_def)
  next
    case False
    have "basename ((d @ ''/'') @ b) = b" using assms by (intro basename_append) simp_all
    then show ?thesis using False nb by (auto simp: path_join_def)
  qed
qed


lemma proj_simps [simp]:
  "proj f [] = []" "proj f (ev # evs) = f ev @ proj f evs"
  "proj f (xs @ ys) = proj f xs @ proj f ys"
  by (simp_all add: proj_def)

lemma submits_proj: "submits evs = proj submit_path evs"
  by (simp add: submits_def proj_def)

lemma in_proj_submit: "submit_call p \<in> set evs \<longleftrightarrow> p \<in> set (proj submit_path evs)"
proof (induction evs)
  case Nil
  then show ?case by simp
next
  case (Cons ev evs)
  then show ?case by (cases ev) auto
qed

lemma in_proj_repack: "repack_call p \<in> set evs \<longleftrightarrow> p \<in> set (proj repack_path evs)"
proof (induction evs)
  case Nil
  then show ?case by simp
next
  case (Cons ev evs)
  then show ?case by (cases ev) auto
qed

lemma in_proj_reported: "error_signal err \<in> set evs \<longleftrightarrow> err \<in> set (proj reported evs)"
proof (induction evs)
  case Nil
  then show ?case by simp
next
  case (Cons ev evs)
  then show ?case by (cases ev) auto
qed

lemma in_proj_task_failure:
  "error_signal (Task_failed e) \<in> set evs \<longleftrightarrow> e \<in> set (proj task_failure evs)"
proof (induction evs)
  case Nil
  then show ?case by simp
next
  case (Cons ev evs)
  show ?case
  proof (cases ev)
    case (error_signal err)
    with Cons show ?thesis by (cases err) auto
  qed (use Cons in auto)
qed

lemma proj_layer_events:
  assumes "\<And>st. f (status_update st) = []" and "\<And>p. f (submit_call p) = []"
  shows "proj f (layer_events env ip t i fs) = []"
  by (induction fs arbitrary: i) (simp_all add: assms)

lemma proj_completion_events:
  assumes "\<And>st. f (status_update st) = []" and "\<And>a b. f (progress_update a b) = []"
  shows "proj f (completion_events pc t n) = []"
  by (induction n arbitrary: pc) (simp_all add: assms)

lemma proj_cleanup_events:
  assumes "\<And>st. f (status_update st) = []" and "\<And>d. f (rmtree_call d) = []"
    and "\<And>e. f (error_signal (Could_not_delete_temp_folder e)) = []"
  shows "proj f (cleanup_events env cfg folder) = []"
  by (simp add: cleanup_events_def assms split: option.splits)

lemma completion_loop_Cons:
  "completion_loop env cfg t j (k # ord) fin s =
     (if \<not> running env (At_result j) s then s
      else case future_result env cfg s k of
        Inr p \<Rightarrow> completion_loop env cfg t (Suc j) ord (fin @ [k]) (completed t s)
      | Inl e \<Rightarrow> failed env e (fin @ [k]) s)"
  by (simp add: completed_def failed_def Let_def split: sum.splits)

lemma completed_fields [simp]:
  "is_running (completed t s) = is_running s"
  "events (completed t s) =
     events s @ [status_update (Completed_processing_images (Suc (processed_count s)) t),
                 progress_update (Suc (processed_count s)) t]"
  by (simp_all add: completed_def)

lemma failed_fields [simp]:
  "is_running (failed env e fin s) = False"
  "events (failed env e fin s) = events s @ [error_signal (Task_failed e)]"
  by (simp_all add: failed_def)

lemma proj_completion_loop:
  assumes "\<And>st. f (status_update st) = []" and "\<And>a b. f (progress_update a b) = []"
    and "(\<forall>e. f (error_signal (Task_failed e)) = []) \<or>
         is_running (completion_loop env cfg t j ord fin s)"
  shows "proj f (events (completion_loop env cfg t j ord fin s)) = proj f (events s)"
  using assms(3)
proof (induction ord arbitrary: j fin s)
  case Nil
  then show ?case by simp
next
  case (Cons k ord)
  show ?case
  proof (cases "running env (At_result j) s")
    case False
    then show ?thesis by (simp add: completion_loop_Cons del: completion_loop.simps)
  next
    case True
    show ?thesis
    proof (cases "future_result env cfg s k")
      case (Inl e)
      with True Cons.prems show ?thesis
        by (auto simp: completion_loop_Cons assms(1,2) simp del: completion_loop.simps)
    next
      case (Inr p)
      have eq: "completion_loop env cfg t j (k # ord) fin s =
            completion_loop env cfg t (Suc j) ord (fin @ [k]) (completed t s)"
        using True Inr by (simp add: completion_loop_Cons del: completion_loop.simps)
      have "proj f (events (completion_loop env cfg t (Suc j) ord (fin @ [k]) (completed t s))) =
            proj f (events (completed t s))"
        using Cons.prems unfolding eq by (rule Cons.IH)
      then show ?thesis unfolding eq by (simp add: assms(1,2))
    qed
  qed
qed

lemma completion_loop_is_running:
  "is_running (completion_loop env cfg t j ord fin s) \<Longrightarrow> is_running s"
proof (induction ord arbitrary: j fin s)
  case Nil
  then show ?case by simp
next
  case (Cons k ord)
  show ?case
  proof (cases "running env (At_result j) s")
    case False
    with Cons.prems show ?thesis by (simp add: completion_loop_Cons del: completion_loop.simps)
  next
    case True
    show ?thesis
    proof (cases "future_result env cfg s k")
      case (Inl e)
      with True Cons.prems show ?thesis
        by (simp add: completion_loop_Cons del: completion_loop.simps)
    next
      case (Inr p)
      with True Cons.prems
      have "is_running (completion_loop env cfg t (Suc j) ord (fin @ [k]) (completed t s))"
        by (simp add: completion_loop_Cons del: completion_loop.simps)
      then have "is_running (completed t s)" by (rule Cons.IH)
      then show ?thesis by simp
    qed
  qed
qed

lemma completion_loop_not_running:
  assumes "is_running s" and "\<not> is_running (completion_loop env cfg t j ord fin s)"
  shows "proj task_failure (events (completion_loop env cfg t j ord fin s)) \<noteq> []"
  using assms
proof (induction ord arbitrary: j fin s)
  case Nil
  then show ?case by simp
next
  case (Cons k ord)
  show ?case
  proof (cases "running env (At_result j) s")
    case False
    with Cons.prems show ?thesis by (simp add: completion_loop_Cons del: completion_loop.simps)
  next
    case True
    show ?thesis
    proof (cases "future_result env cfg s k")
      case (Inl e)
      with True show ?thesis by (simp add: completion_loop_Cons del: completion_loop.simps)
    next
      case (Inr p)
      have eq: "completion_loop env cfg t j (k # ord) fin s =
            completion_loop env cfg t (Suc j) ord (fin @ [k]) (completed t s)"
        using True Inr by (simp add: completion_loop_Cons del: completion_loop.simps)
      have "is_running (completed t s)" using Cons.prems(1) by simp
      moreover have "\<not> is_running (completion_loop env cfg t (Suc j) ord (fin @ [k]) (completed t s))"
        using Cons.prems(2) unfolding eq .
      ultimately show ?thesis unfolding eq by (rule Cons.IH)
    qed
  qed
qed

text \<open>The ways a run can go.\<close>

lemma run_shape:
  obtains
    (raised) e s' where "locate_input env cfg start_state = Raised e s'"
      and "run env cfg =
           finally_block env cfg (emit (error_signal (Error_in_processing_thread e)) s')"
  | (empty) ip op s1 where "locate_input env cfg start_state = Returned (ip, op) s1"
      and "filenames env cfg ip = []"
      and "run env cfg = finally_block env cfg (emit (error_signal No_images_found) s1)"
  | (plain) ip op s1 where "locate_input env cfg start_state = Returned (ip, op) s1"
      and "filenames env cfg ip \<noteq> []"
      and "\<not> (input_mode cfg = ''uvtools'' \<and>
              running env At_repack (process_layers env cfg ip op (filenames env cfg ip) s1))"
      and "run env cfg =
           finally_block env cfg (process_layers env cfg ip op (filenames env cfg ip) s1)"
  | (repacked) ip op s1 u s' where "locate_input env cfg start_state = Returned (ip, op) s1"
      and "filenames env cfg ip \<noteq> []"
      and "input_mode cfg = ''uvtools''"
      and "running env At_repack (process_layers env cfg ip op (filenames env cfg ip) s1)"
      and "run_uvtools_repack env op (process_layers env cfg ip op (filenames env cfg ip) s1) =
           Returned u s'"
      and "run env cfg = finally_block env cfg s'"
  | (repack_raised) ip op s1 e s' where
        "locate_input env cfg start_state = Returned (ip, op) s1"
      and "filenames env cfg ip \<noteq> []"
      and "input_mode cfg = ''uvtools''"
      and "running env At_repack (process_layers env cfg ip op (filenames env cfg ip) s1)"
      and "run_uvtools_repack env op (process_layers env cfg ip op (filenames env cfg ip) s1) =
           Raised e s'"
      and "run env cfg =
           finally_block env cfg (emit (error_signal (Error_in_processing_thread e)) s')"
proof (cases "locate_input env cfg start_state")
  case (Raised e s')
  then have "run env cfg =
           finally_block env cfg (emit (error_signal (Error_in_processing_thread e)) s')"
    by (simp add: run_def try_body_def)
  with Raised show ?thesis by (rule raised)
next
  case (Returned v s1)
  obtain ip op where v: "v = (ip, op)" by (cases v)
  note li = Returned [unfolded v]
  show ?thesis
  proof (cases "filenames env cfg ip = []")
    case True
    then have "run env cfg = finally_block env cfg (emit (error_signal No_images_found) s1)"
      using li by (simp add: run_def try_body_def filenames_def)
    with li True show ?thesis by (rule empty)
  next
    case False
    let ?s2 = "process_layers env cfg ip op (filenames env cfg ip) s1"
    show ?thesis
    proof (cases "input_mode cfg = ''uvtools'' \<and> running env At_repack ?s2")
      case nr: False
      then have "run env cfg = finally_block env cfg ?s2"
        using li False by (auto simp: run_def try_body_def filenames_def Let_def)
      with li False nr show ?thesis by (rule plain)
    next
      case True
      then have uv: "input_mode cfg = ''uvtools''" and r: "running env At_repack ?s2"
        by simp_all
      show ?thesis
      proof (cases "run_uvtools_repack env op ?s2")
        case rp: (Returned u s')
        then have "run env cfg = finally_block env cfg s'"
          using li False True by (auto simp: run_def try_body_def filenames_def Let_def)
        with li False uv r rp show ?thesis by (rule repacked)
      next
        case rp: (Raised e s')
        then have "run env cfg =
           finally_block env cfg (emit (error_signal (Error_in_processing_thread e)) s')"
          using li False True by (auto simp: run_def try_body_def filenames_def Let_def)
        with li False uv r rp show ?thesis by (rule repack_raised)
      qed
    qed
  qed
qed

lemma layers_reached_le: "layers_reached env i n \<le> n"
  by (simp add: layers_reached_def split: option.splits point.splits)

lemma layers_reached_stop:
  "user_stop env = Some (At_submit q) \<Longrightarrow> q < n \<Longrightarrow> layers_reached env 0 n = q"
  by (simp add: layers_reached_def)

lemma layers_reached_all:
  assumes "\<not> stop_requested env pt" and "\<And>q. point_le (At_submit q) pt"
  shows "layers_reached env 0 n = n"
proof (cases "user_stop env")
  case None
  then show ?thesis by (simp add: layers_reached_def)
next
  case (Some u)
  show ?thesis
  proof (cases u)
    case (At_submit q')
    with Some assms show ?thesis by (simp add: stop_requested_def)
  qed (use Some in \<open>simp_all add: layers_reached_def\<close>)
qed

lemma dom_finally_block:
  "p \<in> dom (files (finally_block env cfg s)) \<longleftrightarrow>
   p \<in> dom (files s) \<and>
   \<not> (removes_temp env cfg (session_temp_folder s) \<and> below (session_temp_folder s) p)"
  by (auto simp: cleanup_files dom_def)

lemma stop_at_submit:
  assumes "user_stop env = Some (At_submit i)"
  shows "stop_requested env (At_result j)" "stop_requested env At_repack"
    "stop_requested env At_final"
  using assms by (simp_all add: stop_requested_def)

lemma future_result_same_tasks:
  assumes "heap s' = heap s" and "tasks_of s' = tasks_of s"
    and "k < length (active_futures s)"
  shows "future_result env cfg s' k = future_result env cfg s k"
proof -
  have "k < length (active_futures s')" using assms(2,3) by (metis length_tasks_of)
  then show ?thesis
    using assms by (simp add: future_result_tasks)
qed

text \<open>A run that the user stops during the submission.\<close>

lemma run_when_stopped:
  fixes env :: "('i, 'r) env"
  assumes li: "locate_input env cfg start_state = Returned (ip, op) s1"
    and us: "user_stop env = Some (At_submit i)"
    and i: "i < length (filenames env cfg ip)"
  defines "fns \<equiv> filenames env cfg ip"
  defines "s3 \<equiv> submit_phase env cfg ip op (filenames env cfg ip) s1"
  shows "events (run env cfg) =
           events s1 @ layer_events env ip (length fns) 0 (take i fns) @
           [status_update Processing_stopped_by_user, status_update All_tasks_completed] @
           cleanup_events env cfg (session_temp_folder s1) @
           [status_update Processing_stopped_by_user_or_error, finished_signal]"
    and "active_futures (run env cfg) = active_futures s3"
    and "map filepath (active_futures s3) =
           map (path_join ip) (filter (loadable env ip) (take i fns))"
    and "\<forall>fut \<in> set (active_futures s3). \<not> cancelled fut"
    and "p \<in> dom (files (run env cfg)) \<longleftrightarrow>
           (\<exists>k < length (active_futures s3). future_result env cfg s3 k = Inr p) \<and>
           \<not> (removes_temp env cfg (session_temp_folder s1) \<and> below (session_temp_folder s1) p)"
proof -
  have r1: "is_running s1" using locate_input_returned(1) [OF li] by simp
  have f1: "files s1 = Map.empty" using locate_input_returned(4) [OF li] by simp
  have ne: "filenames env cfg ip \<noteq> []" using i by auto
  have lr: "layers_reached env 0 (length fns) = i"
    using us i by (simp add: layers_reached_stop fns_def)
  have ev3: "events s3 = events s1 @ layer_events env ip (length fns) 0 (take i fns) @
               [status_update Processing_stopped_by_user]"
    using submit_phase_events [OF r1, of env cfg ip op fns] lr i
    by (simp add: s3_def fns_def)
  have nr: "\<not> running env (At_result 0) s3"
    using stop_at_submit(1) [OF us] by (simp add: running_def)
  have cp: "completion_phase env cfg (length fns) s3 = s3"
    using nr by (simp add: completion_phase_def completion_loop_stopped)
  let ?s2 = "process_layers env cfg ip op (filenames env cfg ip) s1"
  have s2: "?s2 = emit (status_update All_tasks_completed) (executor_shutdown env cfg s3)"
    using cp by (simp add: process_layers_def s3_def fns_def)
  have "\<not> (input_mode cfg = ''uvtools'' \<and> running env At_repack ?s2)"
    using stop_at_submit(2) [OF us] by (simp add: running_def)
  then have run: "run env cfg = finally_block env cfg ?s2"
    using li ne by (auto simp: run_def try_body_def filenames_def Let_def)
  have fin: "\<not> (is_running ?s2 \<and> \<not> stop_requested env At_final)"
    using stop_at_submit(3) [OF us] by simp
  show "events (run env cfg) =
           events s1 @ layer_events env ip (length fns) 0 (take i fns) @
           [status_update Processing_stopped_by_user, status_update All_tasks_completed] @
           cleanup_events env cfg (session_temp_folder s1) @
           [status_update Processing_stopped_by_user_or_error, finished_signal]"
  proof -
    have ev2: "events ?s2 = events s3 @ [status_update All_tasks_completed]"
      by (simp add: s2)
    have "events (run env cfg) =
          events ?s2 @ cleanup_events env cfg (session_temp_folder s1) @
          [status_update Processing_stopped_by_user_or_error, finished_signal]"
      using fin by (simp add: run finally_block_events)
    then show ?thesis by (simp add: ev2 ev3)
  qed
  show "active_futures (run env cfg) = active_futures s3"
    by (simp add: run s2)
  from submit_phase_futures [OF r1, where env = env and cfg = cfg and op = op and ip = ip
      and fns = fns]
  show "map filepath (active_futures s3) =
           map (path_join ip) (filter (loadable env ip) (take i fns))"
    and nc: "\<forall>fut \<in> set (active_futures s3). \<not> cancelled fut"
    using lr by (simp_all add: s3_def fns_def)
  have "p \<in> dom (files ?s2) \<longleftrightarrow>
        (\<exists>k < length (active_futures s3). future_result env cfg s3 k = Inr p)"
    using nc f1 by (auto simp: s2 dom_executor_shutdown s3_def)
  then show "p \<in> dom (files (run env cfg)) \<longleftrightarrow>
           (\<exists>k < length (active_futures s3). future_result env cfg s3 k = Inr p) \<and>
           \<not> (removes_temp env cfg (session_temp_folder s1) \<and> below (session_temp_folder s1) p)"
    by (simp only: run dom_finally_block) simp
qed

text \<open>A run in which a task fails, and the failure is the first that the loop meets.\<close>

lemma run_when_failed:
  fixes env :: "('i, 'r) env"
  assumes li: "locate_input env cfg start_state = Returned (ip, op) s1"
    and ne: "filenames env cfg ip \<noteq> []"
  defines "fns \<equiv> filenames env cfg ip"
  defines "s3 \<equiv> submit_phase env cfg ip op (filenames env cfg ip) s1"
  defines "order \<equiv> as_completed env
                     (length (active_futures (submit_phase env cfg ip op (filenames env cfg ip) s1)))"
  assumes j: "j < length order"
    and ok: "\<forall>j' < j. \<exists>p. future_result env cfg s3 (order ! j') = Inr p"
    and bad: "future_result env cfg s3 (order ! j) = Inl e"
    and ns: "\<not> stop_requested env (At_result j)"
  shows "events (run env cfg) =
           events s3 @ completion_events 0 (length fns) j @
           [error_signal (Task_failed e), status_update All_tasks_completed] @
           cleanup_events env cfg (session_temp_folder s1) @
           [status_update Processing_stopped_by_user_or_error, finished_signal]"
    and "events s3 = events s1 @ layer_events env ip (length fns) 0 fns"
    and "active_futures (run env cfg) =
           cancel_all env (take (Suc j) order) (active_futures s3)"
    and "\<not> is_running (run env cfg)"
    and "p \<in> dom (files (run env cfg)) \<longleftrightarrow>
           (\<exists>k < length (active_futures s3).
              \<not> (pending_at_cancel env k \<and> k \<notin> set (take (Suc j) order)) \<and>
              future_result env cfg s3 k = Inr p) \<and>
           \<not> (removes_temp env cfg (session_temp_folder s1) \<and> below (session_temp_folder s1) p)"
proof -
  have r1: "is_running s1" using locate_input_returned(1) [OF li] by simp
  have f1: "files s1 = Map.empty" using locate_input_returned(4) [OF li] by simp
  have r3: "is_running s3" using r1 by (simp add: s3_def)
  have pc3: "processed_count s3 = 0" by (simp add: s3_def)
  have lr: "layers_reached env 0 (length fns) = length fns"
    using ns by (rule layers_reached_all) simp
  show ev3: "events s3 = events s1 @ layer_events env ip (length fns) 0 fns"
    using submit_phase_events [OF r1, of env cfg ip op fns] lr
    by (simp add: s3_def fns_def)
  from submit_phase_futures [OF r1, where env = env and cfg = cfg and op = op and ip = ip
      and fns = fns]
  have nc: "\<forall>fut \<in> set (active_futures s3). \<not> cancelled fut"
    by (simp add: s3_def fns_def)
  have split: "order = take j order @ order ! j # drop (Suc j) order"
    using j by (rule id_take_nth_drop)
  have pre: "\<forall>k \<in> set (take j order). \<exists>p. future_result env cfg s3 k = Inr p"
  proof
    fix k assume "k \<in> set (take j order)"
    then obtain j' where "j' < length (take j order)" "take j order ! j' = k"
      by (auto simp: in_set_conv_nth)
    with ok j show "\<exists>p. future_result env cfg s3 k = Inr p" by auto
  qed
  have ns': "\<not> stop_requested env (At_result (0 + length (take j order)))"
    using ns j by simp
  let ?s4 = "s3\<lparr>processed_count := processed_count s3 + length (take j order),
           events := events s3 @ completion_events (processed_count s3) (length fns)
              (length (take j order)) @ [error_signal (Task_failed e)],
           is_running := False,
           active_futures := cancel_all env ([] @ take j order @ [order ! j]) (active_futures s3)\<rparr>"
  have "completion_phase env cfg (length fns) s3 =
        completion_loop env cfg (length fns) 0
          (take j order @ order ! j # drop (Suc j) order) [] s3"
    using split by (simp add: completion_phase_def order_def s3_def)
  also have "\<dots> = ?s4"
    using r3 pre bad ns' by (rule completion_loop_failed)
  finally have cp: "completion_phase env cfg (length fns) s3 = ?s4" .
  have tk: "take j order @ [order ! j] = take (Suc j) order"
    using j by (simp add: take_Suc_conv_app_nth)
  let ?s2 = "process_layers env cfg ip op (filenames env cfg ip) s1"
  have s2: "?s2 = emit (status_update All_tasks_completed) (executor_shutdown env cfg ?s4)"
    using cp by (simp add: process_layers_def s3_def fns_def)
  have nr2: "\<not> is_running ?s2" by (simp add: s2)
  then have "\<not> (input_mode cfg = ''uvtools'' \<and> running env At_repack ?s2)"
    by (simp add: running_def)
  then have run: "run env cfg = finally_block env cfg ?s2"
    using li ne by (auto simp: run_def try_body_def filenames_def Let_def)
  show "\<not> is_running (run env cfg)" using nr2 by (simp add: run)
  show "active_futures (run env cfg) =
           cancel_all env (take (Suc j) order) (active_futures s3)"
    using tk by (simp add: run s2)
  show "events (run env cfg) =
           events s3 @ completion_events 0 (length fns) j @
           [error_signal (Task_failed e), status_update All_tasks_completed] @
           cleanup_events env cfg (session_temp_folder s1) @
           [status_update Processing_stopped_by_user_or_error, finished_signal]"
  proof -
    have ev2: "events ?s2 = events s3 @ completion_events 0 (length fns) j @
           [error_signal (Task_failed e), status_update All_tasks_completed]"
      using j by (simp add: s2 pc3)
    have "events (run env cfg) =
          events ?s2 @ cleanup_events env cfg (session_temp_folder s1) @
          [status_update Processing_stopped_by_user_or_error, finished_signal]"
      using nr2 by (simp add: run finally_block_events)
    then show ?thesis by (simp add: ev2)
  qed
  have h4: "heap ?s4 = heap s3" and t4: "tasks_of ?s4 = tasks_of s3"
    and l4: "length (active_futures ?s4) = length (active_futures s3)"
    by (simp_all add: tasks_of_def uncancel_cancel_all)
  have c4: "\<And>k. k < length (active_futures s3) \<Longrightarrow>
        cancelled (active_futures ?s4 ! k) =
        (pending_at_cancel env k \<and> k \<notin> set (take (Suc j) order))"
    using nc by (simp add: nth_cancel_all tk)
  have fr4: "\<And>k. k < length (active_futures s3) \<Longrightarrow>
        future_result env cfg ?s4 k = future_result env cfg s3 k"
    using h4 t4 by (rule future_result_same_tasks)
  have "p \<in> dom (files ?s2) \<longleftrightarrow>
        (\<exists>k < length (active_futures s3).
              \<not> (pending_at_cancel env k \<and> k \<notin> set (take (Suc j) order)) \<and>
              future_result env cfg s3 k = Inr p)"
  proof -
    have "p \<in> dom (files ?s2) \<longleftrightarrow>
        (\<exists>k < length (active_futures ?s4).
           \<not> cancelled (active_futures ?s4 ! k) \<and> future_result env cfg ?s4 k = Inr p)"
      using f1 by (simp add: s2 dom_executor_shutdown s3_def)
    also have "\<dots> \<longleftrightarrow> (\<exists>k < length (active_futures s3).
              \<not> (pending_at_cancel env k \<and> k \<notin> set (take (Suc j) order)) \<and>
              future_result env cfg s3 k = Inr p)"
      using c4 fr4 unfolding l4 by (metis (no_types, lifting))
    finally show ?thesis .
  qed
  then show "p \<in> dom (files (run env cfg)) \<longleftrightarrow>
           (\<exists>k < length (active_futures s3).
              \<not> (pending_at_cancel env k \<and> k \<notin> set (take (Suc j) order)) \<and>
              future_result env cfg s3 k = Inr p) \<and>
           \<not> (removes_temp env cfg (session_temp_folder s1) \<and> below (session_temp_folder s1) p)"
    by (simp only: run dom_finally_block) simp
qed

text \<open>What every run reports.\<close>

lemma proj_events_submit_phase:
  assumes "\<And>st. f (status_update st) = []" and "\<And>p. f (submit_call p) = []"
    and "is_running s"
  shows "proj f (events (submit_phase env cfg ip op fns s)) = proj f (events s)"
  by (simp add: submit_phase_events [OF assms(3)] proj_layer_events assms(1,2))

lemma proj_events_process_layers:
  assumes "\<And>st. f (status_update st) = []" and "\<And>p. f (submit_call p) = []"
    and "\<And>a b. f (progress_update a b) = []"
    and "(\<forall>e. f (error_signal (Task_failed e)) = []) \<or>
         is_running (process_layers env cfg ip op fns s)"
    and "is_running s"
  shows "proj f (events (process_layers env cfg ip op fns s)) = proj f (events s)"
proof -
  let ?s3 = "submit_phase env cfg ip op fns s"
  have "(\<forall>e. f (error_signal (Task_failed e)) = []) \<or>
        is_running (completion_loop env cfg (length fns) 0
          (as_completed env (length (active_futures ?s3))) [] ?s3)"
    using assms(4) by (simp add: process_layers_def completion_phase_def)
  then have "proj f (events (completion_phase env cfg (length fns) ?s3)) = proj f (events ?s3)"
    unfolding completion_phase_def by (intro proj_completion_loop assms(1,3))
  then show ?thesis
    by (simp add: process_layers_def assms(1) proj_events_submit_phase [OF assms(1,2,5)])
qed

lemma proj_events_located:
  assumes "\<And>st. f (status_update st) = []" and "\<And>d. f (extract_call d) = []"
  shows "locate_input env cfg start_state = Returned v s1 \<Longrightarrow> proj f (events s1) = []"
    and "locate_input env cfg start_state = Raised e s' \<Longrightarrow> proj f (events s') = []"
proof -
  assume "locate_input env cfg start_state = Returned v s1"
  then have "locate_input env cfg start_state = Returned (fst v, snd v) s1" by simp
  from locate_input_returned(6) [OF this] show "proj f (events s1) = []"
    by (simp add: assms)
next
  assume "locate_input env cfg start_state = Raised e s'"
  from locate_input_raised(6) [OF this] show "proj f (events s') = []"
    by (simp add: assms)
qed

lemma proj_events_finally:
  assumes "\<And>st. f (status_update st) = []" and "\<And>d. f (rmtree_call d) = []"
    and "\<And>e. f (error_signal (Could_not_delete_temp_folder e)) = []"
    and "f finished_signal = []"
  shows "proj f (events (finally_block env cfg s)) = proj f (events s)"
  by (simp add: finally_block_events proj_cleanup_events assms)

lemma proj_submit_layer_events:
  "proj submit_path (layer_events env ip t i fs) = map (path_join ip) (filter (loadable env ip) fs)"
  by (rule submits_layer_events [unfolded submits_proj])

lemma submits_submit_phase:
  assumes "locate_input env cfg start_state = Returned (ip, op) s1"
  shows "proj submit_path (events (submit_phase env cfg ip op fns s1)) =
         map (path_join ip)
           (filter (loadable env ip) (take (layers_reached env 0 (length fns)) fns))"
proof -
  have r1: "is_running s1" using locate_input_returned(1) [OF assms] by simp
  have "proj submit_path (events s1) = []"
    by (rule proj_events_located(1) [OF _ _ assms]) simp_all
  then show ?thesis
    by (simp add: submit_phase_events [OF r1] proj_submit_layer_events)
qed

lemma run_submits:
  "proj submit_path (events (run env cfg)) =
     (case locate_input env cfg start_state of
        Raised e s' \<Rightarrow> []
      | Returned v s1 \<Rightarrow>
          map (path_join (fst v))
            (filter (loadable env (fst v))
               (take (layers_reached env 0 (length (filenames env cfg (fst v))))
                  (filenames env cfg (fst v)))))"
proof (cases rule: run_shape [of env cfg])
  case (raised e s')
  then show ?thesis
    by (simp add: proj_events_finally proj_events_located(2) [OF _ _ raised(1)])
next
  case (empty ip op s1)
  then show ?thesis
    by (simp add: proj_events_finally proj_events_located(1) [OF _ _ empty(1)])
next
  case (plain ip op s1)
  have r1: "is_running s1" using locate_input_returned(1) [OF plain(1)] by simp
  have "proj submit_path (events (run env cfg)) =
        proj submit_path (events (submit_phase env cfg ip op (filenames env cfg ip) s1))"
    by (simp add: plain(4) proj_events_finally process_layers_def completion_phase_def
        proj_completion_loop)
  then show ?thesis
    using plain(1) by (simp add: submits_submit_phase [OF plain(1)])
next
  case (repacked ip op s1 u s')
  have r1: "is_running s1" using locate_input_returned(1) [OF repacked(1)] by simp
  from run_uvtools_repack_returned(7) [OF repacked(5)]
  have "proj submit_path (events s') =
        proj submit_path (events (process_layers env cfg ip op (filenames env cfg ip) s1))"
    by auto
  then have "proj submit_path (events (run env cfg)) =
        proj submit_path (events (submit_phase env cfg ip op (filenames env cfg ip) s1))"
    by (simp add: repacked(6) proj_events_finally process_layers_def completion_phase_def
        proj_completion_loop)
  then show ?thesis
    using repacked(1) by (simp add: submits_submit_phase [OF repacked(1)])
next
  case (repack_raised ip op s1 e s')
  have r1: "is_running s1" using locate_input_returned(1) [OF repack_raised(1)] by simp
  from run_uvtools_repack_raised(7) [OF repack_raised(5)]
  have "proj submit_path (events s') =
        proj submit_path (events (process_layers env cfg ip op (filenames env cfg ip) s1))"
    by auto
  then have "proj submit_path (events (run env cfg)) =
        proj submit_path (events (submit_phase env cfg ip op (filenames env cfg ip) s1))"
    by (simp add: repack_raised(6) proj_events_finally process_layers_def completion_phase_def
        proj_completion_loop)
  then show ?thesis
    using repack_raised(1) by (simp add: submits_submit_phase [OF repack_raised(1)])
qed

lemma run_repack_only_when_complete:
  assumes "proj repack_path (events (run env cfg)) \<noteq> []"
  shows "input_mode cfg = ''uvtools''" and "\<not> stop_requested env At_repack"
    and "proj task_failure (events (run env cfg)) = []"
proof -
  have "input_mode cfg = ''uvtools'' \<and> \<not> stop_requested env At_repack \<and>
        proj task_failure (events (run env cfg)) = []"
  proof (cases rule: run_shape [of env cfg])
    case (raised e s')
    with assms show ?thesis
      by (simp add: proj_events_finally proj_events_located(2) [OF _ _ raised(1)])
  next
    case (empty ip op s1)
    with assms show ?thesis
      by (simp add: proj_events_finally proj_events_located(1) [OF _ _ empty(1)])
  next
    case (plain ip op s1)
    have r1: "is_running s1" using locate_input_returned(1) [OF plain(1)] by simp
    have "proj repack_path (events (run env cfg)) = []"
      by (simp add: plain(4) proj_events_finally proj_events_process_layers [OF _ _ _ _ r1]
          proj_events_located(1) [OF _ _ plain(1)])
    with assms show ?thesis by simp
  next
    case (repacked ip op s1 u s')
    let ?s2 = "process_layers env cfg ip op (filenames env cfg ip) s1"
    have r1: "is_running s1" using locate_input_returned(1) [OF repacked(1)] by simp
    have r2: "is_running ?s2" and ns: "\<not> stop_requested env At_repack"
      using repacked(4) by (simp_all add: running_def)
    from run_uvtools_repack_returned(7) [OF repacked(5)]
    have "proj task_failure (events s') = proj task_failure (events ?s2)" by auto
    also have "\<dots> = proj task_failure (events s1)"
      using r2 by (intro proj_events_process_layers [OF _ _ _ _ r1]) simp_all
    also have "\<dots> = []"
      by (rule proj_events_located(1) [OF _ _ repacked(1)]) simp_all
    finally show ?thesis
      using repacked(3) ns by (simp add: repacked(6) proj_events_finally)
  next
    case (repack_raised ip op s1 e s')
    let ?s2 = "process_layers env cfg ip op (filenames env cfg ip) s1"
    have r1: "is_running s1" using locate_input_returned(1) [OF repack_raised(1)] by simp
    have r2: "is_running ?s2" and ns: "\<not> stop_requested env At_repack"
      using repack_raised(4) by (simp_all add: running_def)
    from run_uvtools_repack_raised(7) [OF repack_raised(5)]
    have "proj task_failure (events s') = proj task_failure (events ?s2)" by auto
    also have "\<dots> = proj task_failure (events s1)"
      using r2 by (intro proj_events_process_layers [OF _ _ _ _ r1]) simp_all
    also have "\<dots> = []"
      by (rule proj_events_located(1) [OF _ _ repack_raised(1)]) simp_all
    finally show ?thesis
      using repack_raised(3) ns by (simp add: repack_raised(6) proj_events_finally)
  qed
  then show "input_mode cfg = ''uvtools''" and "\<not> stop_requested env At_repack"
    and "proj task_failure (events (run env cfg)) = []"
    by simp_all
qed

lemma run_repack_when_complete:
  fixes env :: "('i, 'r) env"
  assumes li: "locate_input env cfg start_state = Returned (ip, op) s1"
    and ne: "filenames env cfg ip \<noteq> []"
    and uv: "input_mode cfg = ''uvtools''"
    and ok: "\<forall>k < length (active_futures (submit_phase env cfg ip op (filenames env cfg ip) s1)).
               \<exists>p. future_result env cfg
                 (submit_phase env cfg ip op (filenames env cfg ip) s1) k = Inr p"
    and ns: "\<not> stop_requested env At_repack"
  shows "repack_call op \<in> set (events (run env cfg))"
proof -
  let ?fns = "filenames env cfg ip"
  let ?s3 = "submit_phase env cfg ip op ?fns s1"
  let ?ord = "as_completed env (length (active_futures ?s3))"
  have r3: "is_running ?s3" using locate_input_returned(1) [OF li] by simp
  have oks: "\<forall>k \<in> set ?ord. \<exists>p. future_result env cfg ?s3 k = Inr p"
    using ok by simp
  have nss: "\<forall>j' < length ?ord. \<not> stop_requested env (At_result (0 + j'))"
  proof (intro allI impI)
    fix j'
    show "\<not> stop_requested env (At_result (0 + j'))"
      using ns stop_requested_mono [of env "At_result (0 + j')" At_repack] by auto
  qed
  have "is_running (completion_phase env cfg (length ?fns) ?s3)"
    unfolding completion_phase_def
    by (simp only: completion_loop_ok [OF r3 oks nss])
       (use locate_input_returned(1) [OF li] in simp)
  then have r2: "running env At_repack (process_layers env cfg ip op ?fns s1)"
    using ns by (simp add: process_layers_def running_def)
  show ?thesis
  proof (cases rule: run_shape [of env cfg])
    case (raised e s')
    with li show ?thesis by simp
  next
    case (empty ip' op' s1')
    with li ne show ?thesis by simp
  next
    case (plain ip' op' s1')
    with li uv r2 show ?thesis by simp
  next
    case (repacked ip' op' s1' u s')
    with li have eq: "ip' = ip" "op' = op" "s1' = s1" by simp_all
    from run_uvtools_repack_returned(7) [OF repacked(5)] show ?thesis
      by (auto simp: repacked(6) finally_block_events eq)
  next
    case (repack_raised ip' op' s1' e s')
    with li have eq: "ip' = ip" "op' = op" "s1' = s1" by simp_all
    from run_uvtools_repack_raised(7) [OF repack_raised(5)] show ?thesis
      by (auto simp: repack_raised(6) finally_block_events eq)
  qed
qed

text \<open>
  C8. In every run, the repacking is entered only in the mode \<^verbatim>\<open>uvtools\<close>, only when the
  user has not asked to stop before the flag is read for it, and only when no task failure
  was reported: a run that the user stops or that a task failure aborts never enters it.
  A run in the mode \<^verbatim>\<open>uvtools\<close> whose extraction succeeds, that finds layer files, whose
  tasks all return, and that the user does not stop before that read, enters it for the
  folder of the processed images.
\<close>

theorem repack_only_when_completed:
  fixes env :: "('i, 'r) env"
  shows "(repack_call f \<in> set (events (run env cfg)) \<longrightarrow>
            input_mode cfg = ''uvtools'' \<and> \<not> stop_requested env At_repack \<and>
            (\<forall>e. error_signal (Task_failed e) \<notin> set (events (run env cfg)))) \<and>
         (stop_requested env At_repack \<longrightarrow>
            (\<forall>f. repack_call f \<notin> set (events (run env cfg)))) \<and>
         (error_signal (Task_failed e) \<in> set (events (run env cfg)) \<longrightarrow>
            (\<forall>f. repack_call f \<notin> set (events (run env cfg)))) \<and>
         (input_mode cfg = ''uvtools'' \<and>
          locate_input env cfg start_state = Returned (ip, op) s1 \<and>
          filenames env cfg ip \<noteq> [] \<and>
          (\<forall>k < length (active_futures (submit_phase env cfg ip op (filenames env cfg ip) s1)).
             \<exists>p. future_result env cfg
               (submit_phase env cfg ip op (filenames env cfg ip) s1) k = Inr p) \<and>
          \<not> stop_requested env At_repack \<longrightarrow>
            repack_call op \<in> set (events (run env cfg)))"
proof (intro conjI impI allI)
  assume "repack_call f \<in> set (events (run env cfg))"
  then have ne: "proj repack_path (events (run env cfg)) \<noteq> []"
    by (auto simp: in_proj_repack)
  from run_repack_only_when_complete [OF ne]
  show "input_mode cfg = ''uvtools''" and "\<not> stop_requested env At_repack"
    and "\<And>e. error_signal (Task_failed e) \<notin> set (events (run env cfg))"
    by (simp_all add: in_proj_task_failure)
next
  fix f' assume st: "stop_requested env At_repack"
  show "repack_call f' \<notin> set (events (run env cfg))"
  proof
    assume "repack_call f' \<in> set (events (run env cfg))"
    then have "proj repack_path (events (run env cfg)) \<noteq> []"
      by (auto simp: in_proj_repack)
    from run_repack_only_when_complete(2) [OF this] st show False by simp
  qed
next
  fix f' assume tf: "error_signal (Task_failed e) \<in> set (events (run env cfg))"
  show "repack_call f' \<notin> set (events (run env cfg))"
  proof
    assume "repack_call f' \<in> set (events (run env cfg))"
    then have "proj repack_path (events (run env cfg)) \<noteq> []"
      by (auto simp: in_proj_repack)
    from run_repack_only_when_complete(3) [OF this] tf show False
      by (simp add: in_proj_task_failure)
  qed
next
  assume "input_mode cfg = ''uvtools'' \<and>
          locate_input env cfg start_state = Returned (ip, op) s1 \<and>
          filenames env cfg ip \<noteq> [] \<and>
          (\<forall>k < length (active_futures (submit_phase env cfg ip op (filenames env cfg ip) s1)).
             \<exists>p. future_result env cfg
               (submit_phase env cfg ip op (filenames env cfg ip) s1) k = Inr p) \<and>
          \<not> stop_requested env At_repack"
  then have "locate_input env cfg start_state = Returned (ip, op) s1"
    and "filenames env cfg ip \<noteq> []" and "input_mode cfg = ''uvtools''"
    and "\<forall>k < length (active_futures (submit_phase env cfg ip op (filenames env cfg ip) s1)).
             \<exists>p. future_result env cfg
               (submit_phase env cfg ip op (filenames env cfg ip) s1) k = Inr p"
    and "\<not> stop_requested env At_repack"
    by blast+
  then show "repack_call op \<in> set (events (run env cfg))"
    by (rule run_repack_when_complete)
qed

text \<open>The events of a state stay when the run goes on.\<close>

lemma completion_loop_events_prefix:
  "prefix (events s) (events (completion_loop env cfg t j ord fin s))"
proof (induction ord arbitrary: j fin s)
  case Nil
  then show ?case by simp
next
  case (Cons k ord)
  show ?case
  proof (cases "running env (At_result j) s")
    case False
    then show ?thesis by (simp add: completion_loop_Cons del: completion_loop.simps)
  next
    case True
    show ?thesis
    proof (cases "future_result env cfg s k")
      case (Inl e)
      with True show ?thesis by (simp add: completion_loop_Cons del: completion_loop.simps)
    next
      case (Inr p)
      have "prefix (events s) (events (completed t s))" by simp
      also have "prefix (events (completed t s))
          (events (completion_loop env cfg t (Suc j) ord (fin @ [k]) (completed t s)))"
        by (rule Cons.IH)
      finally show ?thesis
        using True Inr by (simp add: completion_loop_Cons del: completion_loop.simps)
    qed
  qed
qed

lemma process_layers_events_prefix:
  "prefix (events (submit_phase env cfg ip op fns s)) (events (process_layers env cfg ip op fns s))"
proof -
  have "prefix (events (submit_phase env cfg ip op fns s))
          (events (completion_phase env cfg (length fns) (submit_phase env cfg ip op fns s)))"
    unfolding completion_phase_def by (rule completion_loop_events_prefix)
  also have "prefix \<dots> (events (process_layers env cfg ip op fns s))"
    by (simp add: process_layers_def)
  finally show ?thesis .
qed

lemma finally_block_events_prefix: "prefix (events s) (events (finally_block env cfg s))"
  by (simp add: finally_block_events)

lemma run_events_prefix:
  assumes li: "locate_input env cfg start_state = Returned (ip, op) s1"
    and ne: "filenames env cfg ip \<noteq> []"
  shows "prefix (events (submit_phase env cfg ip op (filenames env cfg ip) s1))
           (events (run env cfg))"
proof -
  let ?s3 = "submit_phase env cfg ip op (filenames env cfg ip) s1"
  let ?s2 = "process_layers env cfg ip op (filenames env cfg ip) s1"
  have p2: "prefix (events ?s3) (events ?s2)" by (rule process_layers_events_prefix)
  show ?thesis
  proof (cases rule: run_shape [of env cfg])
    case (raised e s')
    with li show ?thesis by simp
  next
    case (empty ip' op' s1')
    with li ne show ?thesis by simp
  next
    case (plain ip' op' s1')
    with li have eq: "ip' = ip" "op' = op" "s1' = s1" by simp_all
    note p2
    also have "prefix (events ?s2) (events (run env cfg))"
      by (simp add: plain(4) eq finally_block_events_prefix)
    finally show ?thesis .
  next
    case (repacked ip' op' s1' u s')
    with li have eq: "ip' = ip" "op' = op" "s1' = s1" by simp_all
    note p2
    also have "prefix (events ?s2) (events s')"
      using run_uvtools_repack_returned(7) [OF repacked(5)] by (auto simp: eq)
    also have "prefix (events s') (events (run env cfg))"
      by (simp add: repacked(6) finally_block_events_prefix)
    finally show ?thesis .
  next
    case (repack_raised ip' op' s1' e s')
    with li have eq: "ip' = ip" "op' = op" "s1' = s1" by simp_all
    note p2
    also have "prefix (events ?s2) (events s')"
      using run_uvtools_repack_raised(7) [OF repack_raised(5)] by (auto simp: eq)
    also have "prefix (events s')
        (events (finally_block env cfg (emit (error_signal (Error_in_processing_thread e)) s')))"
      by (simp add: finally_block_events)
    finally show ?thesis by (simp add: repack_raised(6))
  qed
qed

text \<open>
  C4, amended. An image that cannot be loaded is skipped, and is not an error: the layer
  emits the two status texts and changes nothing else, no task is submitted for the file
  in the whole run, the submission reports no error, the status that names the skipped
  file is emitted when the loop reaches the file, and the tasks submitted in the run are
  those of all the files that the loop reaches and that can be loaded, the files after a
  skipped one among them.
\<close>

theorem unloadable_image_is_skipped:
  fixes env :: "('i, 'r) env" and cfg :: config and ip :: string
  defines "fns \<equiv> filenames env cfg ip"
  defines "reached \<equiv> take (layers_reached env 0 (length (filenames env cfg ip)))
                      (filenames env cfg ip)"
  shows "(load_image env (path_join ip f) = None \<longrightarrow>
            submit_layer env cfg ip op t i f s =
              emit (status_update (Skipping_unloadable_image f))
                (emit (status_update (Analyzing f (i + 1) t)) s)) \<and>
         (locate_input env cfg start_state = Returned (ip, op) s1 \<and> fns \<noteq> [] \<longrightarrow>
            (\<forall>g \<in> set fns. \<not> loadable env ip g \<longrightarrow>
               submit_call (path_join ip g) \<notin> set (events (run env cfg))) \<and>
            (\<forall>err. error_signal err \<notin> set (events (submit_phase env cfg ip op fns s1))) \<and>
            (\<forall>g \<in> set reached. \<not> loadable env ip g \<longrightarrow>
               status_update (Skipping_unloadable_image g) \<in> set (events (run env cfg))) \<and>
            (\<forall>g \<in> set reached. loadable env ip g \<longrightarrow>
               submit_call (path_join ip g) \<in> set (events (run env cfg))) \<and>
            proj submit_path (events (run env cfg)) =
              map (path_join ip) (filter (loadable env ip) reached))"
proof (intro conjI impI ballI allI)
  assume "load_image env (path_join ip f) = None"
  then show "submit_layer env cfg ip op t i f s =
              emit (status_update (Skipping_unloadable_image f))
                (emit (status_update (Analyzing f (i + 1) t)) s)"
    by (rule submit_layer_unloadable)
next
  assume h: "locate_input env cfg start_state = Returned (ip, op) s1 \<and> fns \<noteq> []"
  then have li: "locate_input env cfg start_state = Returned (ip, op) s1"
    and ne: "filenames env cfg ip \<noteq> []"
    by (simp_all add: fns_def)
  have r1: "is_running s1" using locate_input_returned(1) [OF li] by simp
  show subs: "proj submit_path (events (run env cfg)) =
              map (path_join ip) (filter (loadable env ip) reached)"
    using run_submits [of env cfg] li by (simp add: reached_def)
  have ev3: "events (submit_phase env cfg ip op fns s1) =
         events s1 @ layer_events env ip (length fns) 0 reached @
         (if layers_reached env 0 (length fns) < length fns
          then [status_update Processing_stopped_by_user] else [])"
    using submit_phase_events [OF r1, of env cfg ip op fns] by (simp add: reached_def fns_def)
  have pre: "set (events (submit_phase env cfg ip op fns s1)) \<subseteq> set (events (run env cfg))"
    using run_events_prefix [OF li ne] by (auto simp: fns_def dest: set_mono_prefix)
  {
    fix g assume g: "g \<in> set fns" and n: "\<not> loadable env ip g"
    show "submit_call (path_join ip g) \<notin> set (events (run env cfg))"
    proof
      assume "submit_call (path_join ip g) \<in> set (events (run env cfg))"
      then have "path_join ip g \<in> set (map (path_join ip) (filter (loadable env ip) reached))"
        by (simp add: in_proj_submit subs)
      then obtain g' where "loadable env ip g'" "path_join ip g' = path_join ip g" by auto
      with n show False by (simp add: loadable_def)
    qed
  }
  {
    fix err
    have "proj reported (events (submit_phase env cfg ip op fns s1)) = proj reported (events s1)"
      by (rule proj_events_submit_phase [OF _ _ r1]) simp_all
    also have "\<dots> = []" by (rule proj_events_located(1) [OF _ _ li]) simp_all
    finally show "error_signal err \<notin> set (events (submit_phase env cfg ip op fns s1))"
      by (simp add: in_proj_reported)
  }
  {
    fix g assume g: "g \<in> set reached" and n: "\<not> loadable env ip g"
    from layer_events_skipping [OF g n]
    have "status_update (Skipping_unloadable_image g) \<in>
            set (events (submit_phase env cfg ip op fns s1))"
      by (simp add: ev3)
    with pre show "status_update (Skipping_unloadable_image g) \<in> set (events (run env cfg))"
      by blast
  }
  {
    fix g assume g: "g \<in> set reached" and l: "loadable env ip g"
    then have "path_join ip g \<in> set (proj submit_path (events (run env cfg)))"
      by (simp add: subs)
    then show "submit_call (path_join ip g) \<in> set (events (run env cfg))"
      by (simp add: in_proj_submit)
  }
qed

lemma no_repack_before_completion:
  assumes li: "locate_input env cfg start_state = Returned (ip, op) s1"
  shows "proj repack_path (events (submit_phase env cfg ip op fns s1)) = []"
    and "proj reported (events (submit_phase env cfg ip op fns s1)) = []"
proof -
  have r1: "is_running s1" using locate_input_returned(1) [OF li] by simp
  have "proj repack_path (events (submit_phase env cfg ip op fns s1)) =
        proj repack_path (events s1)"
    by (rule proj_events_submit_phase [OF _ _ r1]) simp_all
  also have "\<dots> = []" by (rule proj_events_located(1) [OF _ _ li]) simp_all
  finally show "proj repack_path (events (submit_phase env cfg ip op fns s1)) = []" .
  have "proj reported (events (submit_phase env cfg ip op fns s1)) = proj reported (events s1)"
    by (rule proj_events_submit_phase [OF _ _ r1]) simp_all
  also have "\<dots> = []" by (rule proj_events_located(1) [OF _ _ li]) simp_all
  finally show "proj reported (events (submit_phase env cfg ip op fns s1)) = []" .
qed

text \<open>
  C2, amended. When the completion loop meets its first failed task, and the user has not
  stopped the run before: the error of that task, message and traceback, is reported, and
  it is the only error reported before the cleanup; after the events of the submission
  come the completions before the failure, the error, the closing status texts, and
  between them the events of the cleanup, so that nothing is submitted after the failure
  and the repacking is not entered; the futures that had not started when the failure was
  met are cancelled, and they are the only ones; the flag is reset; and the output files
  on disk at the end are those of the tasks that were not cancelled and returned, those of
  the layers completed before the failure among them, unless the cleanup has removed the
  temporary folder of the session, which holds them in the mode \<^verbatim>\<open>uvtools\<close>.
\<close>

theorem task_failure_aborts_run:
  fixes env :: "('i, 'r) env" and cfg :: config and ip op :: string and s1 :: "('i, 'r) state"
    and j :: nat and e :: exc
  defines "fns \<equiv> filenames env cfg ip"
  defines "s3 \<equiv> submit_phase env cfg ip op (filenames env cfg ip) s1"
  defines "order \<equiv> as_completed env
                     (length (active_futures (submit_phase env cfg ip op (filenames env cfg ip) s1)))"
  defines "closing \<equiv> completion_events 0 (length (filenames env cfg ip)) j @
           [error_signal (Task_failed e), status_update All_tasks_completed] @
           cleanup_events env cfg (session_temp_folder s1) @
           [status_update Processing_stopped_by_user_or_error, finished_signal]"
  shows "locate_input env cfg start_state = Returned (ip, op) s1 \<and> fns \<noteq> [] \<and>
         j < length order \<and>
         (\<forall>j' < j. \<exists>p. future_result env cfg s3 (order ! j') = Inr p) \<and>
         future_result env cfg s3 (order ! j) = Inl e \<and>
         \<not> stop_requested env (At_result j) \<longrightarrow>
           events (run env cfg) = events s3 @ closing \<and>
           proj task_failure (events (run env cfg)) = [e] \<and>
           (\<forall>q. submit_call q \<notin> set closing) \<and>
           (\<forall>f. repack_call f \<notin> set (events (run env cfg))) \<and>
           (\<forall>k < length (active_futures s3).
              cancelled (active_futures (run env cfg) ! k) \<longleftrightarrow>
              pending_at_cancel env k \<and> k \<notin> set (take (Suc j) order)) \<and>
           \<not> is_running (run env cfg) \<and>
           (p \<in> dom (files (run env cfg)) \<longleftrightarrow>
              (\<exists>k < length (active_futures s3).
                 \<not> cancelled (active_futures (run env cfg) ! k) \<and>
                 future_result env cfg s3 k = Inr p) \<and>
              \<not> (removes_temp env cfg (session_temp_folder s1) \<and>
                 below (session_temp_folder s1) p)) \<and>
           (\<forall>j' < j. \<forall>q. future_result env cfg s3 (order ! j') = Inr q \<and>
              \<not> (removes_temp env cfg (session_temp_folder s1) \<and>
                 below (session_temp_folder s1) q) \<longrightarrow>
              q \<in> dom (files (run env cfg)))"
proof (intro impI)
  assume h: "locate_input env cfg start_state = Returned (ip, op) s1 \<and> fns \<noteq> [] \<and>
         j < length order \<and>
         (\<forall>j' < j. \<exists>p. future_result env cfg s3 (order ! j') = Inr p) \<and>
         future_result env cfg s3 (order ! j) = Inl e \<and>
         \<not> stop_requested env (At_result j)"
  then have li: "locate_input env cfg start_state = Returned (ip, op) s1"
    and ne: "filenames env cfg ip \<noteq> []"
    and j: "j < length (as_completed env
              (length (active_futures (submit_phase env cfg ip op (filenames env cfg ip) s1))))"
    and ok: "\<forall>j' < j. \<exists>p. future_result env cfg
               (submit_phase env cfg ip op (filenames env cfg ip) s1)
               (as_completed env (length (active_futures
                  (submit_phase env cfg ip op (filenames env cfg ip) s1))) ! j') = Inr p"
    and bad: "future_result env cfg (submit_phase env cfg ip op (filenames env cfg ip) s1)
               (as_completed env (length (active_futures
                  (submit_phase env cfg ip op (filenames env cfg ip) s1))) ! j) = Inl e"
    and ns: "\<not> stop_requested env (At_result j)"
    by (simp_all add: fns_def s3_def order_def)
  note f = run_when_failed [OF li ne j ok bad ns, folded s3_def order_def]
  have ev: "events (run env cfg) = events s3 @ closing"
    using f(1) by (simp add: closing_def)
  have cl_sub: "proj submit_path closing = []"
    and cl_rep: "proj repack_path closing = []"
    and cl_tf: "proj task_failure closing = [e]"
    by (simp_all add: closing_def proj_completion_events proj_cleanup_events)
  have n: "length (active_futures (run env cfg)) = length (active_futures s3)"
    by (simp add: f(3))
  have canc: "\<And>k. k < length (active_futures s3) \<Longrightarrow>
              cancelled (active_futures (run env cfg) ! k) \<longleftrightarrow>
              pending_at_cancel env k \<and> k \<notin> set (take (Suc j) order)"
  proof -
    fix k assume k: "k < length (active_futures s3)"
    have r1: "is_running s1" using locate_input_returned(1) [OF li] by simp
    from submit_phase_futures [OF r1, where env = env and cfg = cfg and op = op and ip = ip
      and fns = "filenames env cfg ip"] k
    have "\<not> cancelled (active_futures s3 ! k)" by (simp add: s3_def)
    then show "cancelled (active_futures (run env cfg) ! k) \<longleftrightarrow>
              pending_at_cancel env k \<and> k \<notin> set (take (Suc j) order)"
      using k by (simp add: f(3) nth_cancel_all)
  qed
  have dom: "\<And>q. q \<in> dom (files (run env cfg)) \<longleftrightarrow>
              (\<exists>k < length (active_futures s3).
                 \<not> cancelled (active_futures (run env cfg) ! k) \<and>
                 future_result env cfg s3 k = Inr q) \<and>
              \<not> (removes_temp env cfg (session_temp_folder s1) \<and>
                 below (session_temp_folder s1) q)"
    using canc by (simp only: f(5)) (metis (no_types, lifting))
  have kept: "\<And>j' q. j' < j \<Longrightarrow> future_result env cfg s3 (order ! j') = Inr q \<Longrightarrow>
              \<not> (removes_temp env cfg (session_temp_folder s1) \<and>
                 below (session_temp_folder s1) q) \<Longrightarrow>
              q \<in> dom (files (run env cfg))"
  proof -
    fix j' q
    assume j': "j' < j" and q: "future_result env cfg s3 (order ! j') = Inr q"
      and nr: "\<not> (removes_temp env cfg (session_temp_folder s1) \<and>
                 below (session_temp_folder s1) q)"
    have jl: "j' < length order" using j' j by (simp add: order_def)
    then have "order ! j' \<in> set order" by simp
    then have kl: "order ! j' < length (active_futures s3)"
      by (simp add: order_def s3_def)
    have "order ! j' \<in> set (take (Suc j) order)"
      using j' jl by (auto simp: in_set_conv_nth intro!: exI [of _ j'])
    with kl q nr show "q \<in> dom (files (run env cfg))"
      by (subst f(5)) blast
  qed
  show "events (run env cfg) = events s3 @ closing \<and>
           proj task_failure (events (run env cfg)) = [e] \<and>
           (\<forall>q. submit_call q \<notin> set closing) \<and>
           (\<forall>f. repack_call f \<notin> set (events (run env cfg))) \<and>
           (\<forall>k < length (active_futures s3).
              cancelled (active_futures (run env cfg) ! k) \<longleftrightarrow>
              pending_at_cancel env k \<and> k \<notin> set (take (Suc j) order)) \<and>
           \<not> is_running (run env cfg) \<and>
           (p \<in> dom (files (run env cfg)) \<longleftrightarrow>
              (\<exists>k < length (active_futures s3).
                 \<not> cancelled (active_futures (run env cfg) ! k) \<and>
                 future_result env cfg s3 k = Inr p) \<and>
              \<not> (removes_temp env cfg (session_temp_folder s1) \<and>
                 below (session_temp_folder s1) p)) \<and>
           (\<forall>j' < j. \<forall>q. future_result env cfg s3 (order ! j') = Inr q \<and>
              \<not> (removes_temp env cfg (session_temp_folder s1) \<and>
                 below (session_temp_folder s1) q) \<longrightarrow>
              q \<in> dom (files (run env cfg)))"
  proof (intro conjI allI impI)
    show "events (run env cfg) = events s3 @ closing" by (rule ev)
    show "proj task_failure (events (run env cfg)) = [e]"
      using no_repack_before_completion(2) [OF li, of "filenames env cfg ip"] cl_tf
        proj_events_submit_phase [of task_failure s1 env cfg ip op "filenames env cfg ip"]
        locate_input_returned(1) [OF li] proj_events_located(1) [OF _ _ li, of task_failure]
      by (simp add: ev s3_def)
    show "submit_call q \<notin> set closing" for q
      using cl_sub by (simp add: in_proj_submit)
    show "repack_call f \<notin> set (events (run env cfg))" for f
      using no_repack_before_completion(1) [OF li, of "filenames env cfg ip"] cl_rep
      by (simp add: in_proj_repack ev s3_def)
    show "cancelled (active_futures (run env cfg) ! k) \<longleftrightarrow>
              pending_at_cancel env k \<and> k \<notin> set (take (Suc j) order)"
      if "k < length (active_futures s3)" for k
      using that by (rule canc)
    show "\<not> is_running (run env cfg)" by (rule f(4))
    show "p \<in> dom (files (run env cfg)) \<longleftrightarrow>
              (\<exists>k < length (active_futures s3).
                 \<not> cancelled (active_futures (run env cfg) ! k) \<and>
                 future_result env cfg s3 k = Inr p) \<and>
              \<not> (removes_temp env cfg (session_temp_folder s1) \<and>
                 below (session_temp_folder s1) p)"
      by (rule dom)
    show "q \<in> dom (files (run env cfg))"
      if "j' < j" and "future_result env cfg s3 (order ! j') = Inr q \<and>
              \<not> (removes_temp env cfg (session_temp_folder s1) \<and>
                 below (session_temp_folder s1) q)" for j' q
      using that kept by blast
  qed
qed

text \<open>
  C6, amended. The flag is read at the top of every iteration of the submission loop, and
  an iteration that finds it reset submits nothing and ends the loop. When the user stops
  the run at iteration \<open>i\<close>: the tasks submitted in the whole run are those of the files
  before \<open>i\<close> that could be loaded; after the events of these layers come the status
  \<^verbatim>\<open>Processing stopped by user.\<close>, the closing status texts and, between them, the events of
  the cleanup; no error is reported unless the cleanup fails to remove the temporary
  folder; the repacking is not entered; no future is cancelled; and the output files on
  disk at the end are those of the submitted tasks that returned, unless the cleanup has
  removed the temporary folder of the session, which holds them in the mode
  \<^verbatim>\<open>uvtools\<close>.
\<close>

theorem user_stop_ends_run:
  fixes env :: "('i, 'r) env" and cfg :: config and ip op :: string and s1 :: "('i, 'r) state"
  defines "fns \<equiv> filenames env cfg ip"
  defines "s3 \<equiv> submit_phase env cfg ip op (filenames env cfg ip) s1"
  shows "(\<not> running env (At_submit i') s \<longrightarrow>
            submit_loop env cfg ip op t i' (f # rest) s =
              emit (status_update Processing_stopped_by_user) s) \<and>
         (locate_input env cfg start_state = Returned (ip, op) s1 \<and>
          user_stop env = Some (At_submit i) \<and> i < length fns \<longrightarrow>
            events (run env cfg) =
              events s1 @ layer_events env ip (length fns) 0 (take i fns) @
              [status_update Processing_stopped_by_user, status_update All_tasks_completed] @
              cleanup_events env cfg (session_temp_folder s1) @
              [status_update Processing_stopped_by_user_or_error, finished_signal] \<and>
            proj submit_path (events (run env cfg)) =
              map (path_join ip) (filter (loadable env ip) (take i fns)) \<and>
            (\<forall>err. error_signal err \<in> set (events (run env cfg)) \<longrightarrow>
               (\<exists>x. err = Could_not_delete_temp_folder x)) \<and>
            (\<forall>d. repack_call d \<notin> set (events (run env cfg))) \<and>
            (\<forall>fut \<in> set (active_futures (run env cfg)). \<not> cancelled fut) \<and>
            (p \<in> dom (files (run env cfg)) \<longleftrightarrow>
               (\<exists>k < length (active_futures (run env cfg)). future_result env cfg s3 k = Inr p) \<and>
               \<not> (removes_temp env cfg (session_temp_folder s1) \<and>
                  below (session_temp_folder s1) p)))"
proof (intro conjI impI)
  assume "\<not> running env (At_submit i') s"
  then show "submit_loop env cfg ip op t i' (f # rest) s =
              emit (status_update Processing_stopped_by_user) s"
    by simp
next
  assume h: "locate_input env cfg start_state = Returned (ip, op) s1 \<and>
          user_stop env = Some (At_submit i) \<and> i < length fns"
  then have li: "locate_input env cfg start_state = Returned (ip, op) s1"
    and us: "user_stop env = Some (At_submit i)"
    and i: "i < length (filenames env cfg ip)"
    by (simp_all add: fns_def)
  note f = run_when_stopped [OF li us i, folded fns_def s3_def]
  have s1_rep: "proj repack_path (events s1) = []"
    and s1_err: "proj reported (events s1) = []"
    and s1_sub: "proj submit_path (events s1) = []"
    by (rule proj_events_located(1) [OF _ _ li]; simp)+
  show ev: "events (run env cfg) =
              events s1 @ layer_events env ip (length fns) 0 (take i fns) @
              [status_update Processing_stopped_by_user, status_update All_tasks_completed] @
              cleanup_events env cfg (session_temp_folder s1) @
              [status_update Processing_stopped_by_user_or_error, finished_signal]"
    by (rule f(1))
  show "proj submit_path (events (run env cfg)) =
              map (path_join ip) (filter (loadable env ip) (take i fns))"
    by (simp add: ev s1_sub proj_submit_layer_events proj_cleanup_events)
  show "\<forall>err. error_signal err \<in> set (events (run env cfg)) \<longrightarrow>
               (\<exists>x. err = Could_not_delete_temp_folder x)"
  proof (intro allI impI)
    fix err assume "error_signal err \<in> set (events (run env cfg))"
    then have "err \<in> set (proj reported (cleanup_events env cfg (session_temp_folder s1)))"
      by (simp add: in_proj_reported ev s1_err proj_layer_events)
    then show "\<exists>x. err = Could_not_delete_temp_folder x"
      by (auto simp: cleanup_events_def split: if_splits option.splits)
  qed
  show "\<forall>d. repack_call d \<notin> set (events (run env cfg))"
    by (simp add: in_proj_repack ev s1_rep proj_layer_events proj_cleanup_events)
  show "\<forall>fut \<in> set (active_futures (run env cfg)). \<not> cancelled fut"
    using f(4) by (simp add: f(2))
  show "p \<in> dom (files (run env cfg)) \<longleftrightarrow>
               (\<exists>k < length (active_futures (run env cfg)). future_result env cfg s3 k = Inr p) \<and>
               \<not> (removes_temp env cfg (session_temp_folder s1) \<and>
                  below (session_temp_folder s1) p)"
    using f(5) by (simp add: f(2))
qed

text \<open>The example runs.\<close>

lemma ex_filenames:
  "filenames (example_env_with u g) (example_config_with m d) ip =
     [''0.png'', ''1.png'', ''2.png'', ''3.png'']"
proof -
  have "image_filenames_filtered None None [''2.png'', ''0.png'', ''notes.txt'', ''3.png'', ''1.png'']
        = [''0.png'', ''1.png'', ''2.png'', ''3.png'']"
    by code_simp
  then show ?thesis by (simp add: filenames_def example_env_with_def example_config_with_def)
qed

lemma ex_load:
  assumes "CHR ''/'' \<notin> set f"
  shows "load_image (example_env_with u g) (path_join ip f) =
         (if f = ''0.png'' then Some (10, 100) else if f = ''2.png'' then Some (12, 102)
          else if f = ''3.png'' then Some (13, 103) else None)"
  using assms by (simp add: example_env_with_def basename_path_join)

lemma ex_loadable:
  "loadable (example_env_with u g) ip ''0.png''" "\<not> loadable (example_env_with u g) ip ''1.png''"
  "loadable (example_env_with u g) ip ''2.png''" "loadable (example_env_with u g) ip ''3.png''"
  by (simp_all add: loadable_def ex_load)

lemma ex_submitted:
  assumes "heap s1 = []" and "is_running s1"
  shows "heap (submit_phase (example_env_with None g) (example_config_with m d) ip op
           [''0.png'', ''1.png'', ''2.png'', ''3.png''] s1) = example_heap"
    and "active_futures (submit_phase (example_env_with None g) (example_config_with m d) ip op
           [''0.png'', ''1.png'', ''2.png'', ''3.png''] s1) = example_futures ip op"
  using assms
  by (simp_all add: submit_phase_def submit_layer_def running_def stop_requested_def
      Let_def deque_new_def deque_copy_def deque_append_def popleft_def example_heap_def
      example_futures_def example_env_with_def example_config_with_def basename_path_join)

lemma ex_submitted_stop:
  assumes "heap s1 = []" and "is_running s1"
  shows "heap (submit_phase (example_env_with (Some (At_submit 2)) g) (example_config_with m d)
           ip op [''0.png'', ''1.png'', ''2.png'', ''3.png''] s1) =
         [\<lparr>maxlen = Some 1, items = [10]\<rparr>, \<lparr>maxlen = None, items = []\<rparr>]"
    and "active_futures (submit_phase (example_env_with (Some (At_submit 2)) g)
           (example_config_with m d) ip op [''0.png'', ''1.png'', ''2.png'', ''3.png''] s1) =
         take 1 (example_futures ip op)"
  using assms
  by (simp_all add: submit_phase_def submit_layer_def running_def stop_requested_def
      Let_def deque_new_def deque_copy_def deque_append_def popleft_def
      example_futures_def example_env_with_def example_config_with_def basename_path_join)

lemma ex_located_folder:
  "locate_input env (example_config_with ''folder'' d) s = Returned (''in'', ''out'') s"
  by (simp add: locate_input_def example_config_with_def)

lemma ex_located_uvtools:
  "\<exists>s1. locate_input (example_env_with u g) (example_config_with ''uvtools'' d) start_state =
          Returned (''tmp/p_T/Input'', ''tmp/p_T/Output'') s1 \<and>
        session_temp_folder s1 = ''tmp/p_T''"
  by (simp add: locate_input_def run_uvtools_extraction_def Let_def path_join_def
      example_env_with_def example_config_with_def)

lemma ex_order: "as_completed (example_env_with u g) 3 = [0, 1, 2]"
  by (simp add: as_completed_def example_env_with_def upt_rec [of 0] upt_rec [of 1]
      upt_rec [of 2] numeral_3_eq_3)

lemma ex_result:
  assumes "heap s = example_heap \<or> k = 0 \<and> heap s = [\<lparr>maxlen = Some 1, items = [10]\<rparr>, \<lparr>maxlen = None, items = []\<rparr>]"
    and "active_futures s ! k = example_futures ip op ! k" and "k < 3"
  shows "future_result (example_env_with u g) (example_config_with m d) s k =
         (case g ([110, 124, 128] ! k) [] of
            Inl e \<Rightarrow> Inl e
          | Inr img \<Rightarrow> Inr (path_join op ([''0.png'', ''2.png'', ''3.png''] ! k)))"
proof -
  from assms(3) consider "k = 0" | "k = 1" | "k = 2" by linarith
  then show ?thesis
  proof cases
    case 1
    with assms(1,2) show ?thesis
      by (auto simp: future_result_def task_by_image task_image_def example_heap_def
          example_futures_def example_env_with_def example_config_with_def basename_path_join
          split: sum.splits)
  next
    case 2
    with assms(1,2) show ?thesis
      by (auto simp: future_result_def task_by_image task_image_def example_heap_def
          example_futures_def example_env_with_def example_config_with_def basename_path_join
          split: sum.splits)
  next
    case 3
    with assms(1,2) show ?thesis
      by (auto simp: future_result_def task_by_image task_image_def example_heap_def
          example_futures_def example_env_with_def example_config_with_def basename_path_join
          split: sum.splits)
  qed
qed

lemma completion_phase_ok:
  assumes r3: "is_running s"
    and ok: "\<forall>k < length (active_futures s). \<exists>p. future_result env cfg s k = Inr p"
    and ns: "\<not> stop_requested env At_repack"
  shows "is_running (completion_phase env cfg t s)"
proof -
  let ?ord = "as_completed env (length (active_futures s))"
  have oks: "\<forall>k \<in> set ?ord. \<exists>p. future_result env cfg s k = Inr p"
    using ok by simp
  have nss: "\<forall>j' < length ?ord. \<not> stop_requested env (At_result (0 + j'))"
  proof (intro allI impI)
    fix j'
    show "\<not> stop_requested env (At_result (0 + j'))"
      using ns stop_requested_mono [of env "At_result (0 + j')" At_repack] by auto
  qed
  show ?thesis
    unfolding completion_phase_def
    by (simp only: completion_loop_ok [OF r3 oks nss]) (simp add: r3)
qed

lemma start_state_simps:
  "heap start_state = []" "is_running start_state" "files start_state = Map.empty"
  by (simp_all add: start_state_def initial_state_def emit_def)

lemma ex_run_folder:
  fixes g :: "nat \<Rightarrow> string list \<Rightarrow> exc + nat" and d :: bool
  defines "r \<equiv> run (example_env_with None g) (example_config_with ''folder'' d)"
  shows "heap r = example_heap"
    and "tasks_of r = example_futures ''in'' ''out''"
    and "length (active_futures r) = 3"
    and "map binary_image (active_futures r) = [10, 12, 13]"
    and "map prior_binary_masks_snapshot (active_futures r) = [1, 2, 3]"
proof -
  let ?env = "example_env_with None g" and ?cfg = "example_config_with ''folder'' d"
  have li: "locate_input ?env ?cfg start_state = Returned (''in'', ''out'') start_state"
    by (rule ex_located_folder)
  have ne: "filenames ?env ?cfg ''in'' \<noteq> []" by (simp add: ex_filenames)
  show "heap r = example_heap"
    using run_busy(1) [OF li ne] ex_submitted(1) [of start_state g "''folder''" d "''in''" "''out''"]
    by (simp add: r_def ex_filenames start_state_simps)
  show t: "tasks_of r = example_futures ''in'' ''out''"
    using run_busy(3) [OF li ne] ex_submitted(2) [of start_state g "''folder''" d "''in''" "''out''"]
    by (simp add: r_def ex_filenames start_state_simps tasks_of_def example_futures_def)
  from arg_cong [OF t, of length] show "length (active_futures r) = 3"
    by (simp add: tasks_of_def example_futures_def)
  from arg_cong [OF t, of "map binary_image"] show "map binary_image (active_futures r) = [10, 12, 13]"
    by (simp add: tasks_of_def example_futures_def comp_def)
  from arg_cong [OF t, of "map prior_binary_masks_snapshot"]
  show "map prior_binary_masks_snapshot (active_futures r) = [1, 2, 3]"
    by (simp add: tasks_of_def example_futures_def comp_def)
qed

theorem snapshot_holds_preceding_masks_witness:
  "length (active_futures (run example_env example_config)) = 3 \<and>
   map binary_image (active_futures (run example_env example_config)) = [10, 12, 13] \<and>
   receding_layers example_config = 1 \<and>
   items (heap (run example_env example_config) !
          prior_binary_masks_snapshot (active_futures (run example_env example_config) ! 0)) = [] \<and>
   items (heap (run example_env example_config) !
          prior_binary_masks_snapshot (active_futures (run example_env example_config) ! 1)) = [10] \<and>
   items (heap (run example_env example_config) !
          prior_binary_masks_snapshot (active_futures (run example_env example_config) ! 2)) = [12] \<and>
   prior_binary_masks_snapshot (active_futures (run example_env example_config) ! 2) \<noteq>
     prior_binary_masks_cache (run example_env example_config) \<and>
   load_image example_env (path_join ''in'' ''3.png'') = Some (13, 103) \<and>
   prior_binary_masks_cache (initial_state\<lparr>heap := [\<lparr>maxlen = Some 1, items = [12::nat]\<rparr>]\<rparr> :: (nat, nat) state) = 0 \<and>
   items (heap (submit_layer example_env example_config ''in'' ''out'' 4 3 ''3.png''
                  (initial_state\<lparr>heap := [\<lparr>maxlen = Some 1, items = [12]\<rparr>]\<rparr>)) !
          prior_binary_masks_snapshot (last (active_futures
            (submit_layer example_env example_config ''in'' ''out'' 4 3 ''3.png''
               (initial_state\<lparr>heap := [\<lparr>maxlen = Some 1, items = [12]\<rparr>]\<rparr>))))) = [12] \<and>
   heap (submit_layer example_env example_config ''in'' ''out'' 4 3 ''3.png''
           (initial_state\<lparr>heap := [\<lparr>maxlen = Some 1, items = [12]\<rparr>]\<rparr>)) ! 0 =
     \<lparr>maxlen = Some 1, items = [13]\<rparr> \<and>
   heap (submit_loop example_env example_config ''in'' ''out'' 4 3 [''3.png'']
           (initial_state\<lparr>heap := [\<lparr>maxlen = Some 1, items = [12]\<rparr>, \<lparr>maxlen = None, items = [10]\<rparr>]\<rparr>)) ! 1 =
     \<lparr>maxlen = None, items = [10]\<rparr>"
proof -
  let ?r = "run example_env example_config"
  let ?s0 = "initial_state\<lparr>heap := [\<lparr>maxlen = Some 1, items = [12]\<rparr>]\<rparr> :: (nat, nat) state"
  let ?s1 = "initial_state\<lparr>heap := [\<lparr>maxlen = Some 1, items = [12]\<rparr>,
               \<lparr>maxlen = None, items = [10]\<rparr>]\<rparr> :: (nat, nat) state"
  note ex = ex_run_folder [of "\<lambda>i ops. Inr i" False, folded example_env_def example_config_def]
  have rl: "receding_layers example_config = 1"
    by (simp add: example_config_def example_config_with_def)
  have ld: "load_image example_env (path_join ''in'' ''3.png'') = Some (13, 103)"
    by (simp add: example_env_def ex_load)
  have tk: "map binary_image (take k (active_futures ?r)) = take k [10, 12, 13]" for k
    using ex(4) by (simp add: take_map [symmetric])
  have c0: "prior_binary_masks_cache ?s0 = 0"
    by (simp add: initial_state_def)
  from snapshot_holds_preceding_masks [of example_env example_config "''in''" "''3.png''" 13 103
      ?s0 "''out''" 4 3 1 "[''3.png'']"]
  have a: "\<forall>k < 3. prior_binary_masks_snapshot (active_futures ?r ! k) \<noteq>
                     prior_binary_masks_cache ?r \<and>
                   items (heap ?r ! prior_binary_masks_snapshot (active_futures ?r ! k)) =
                     drop (k - 1) (take k [10, 12, 13])"
    and b: "items (heap (submit_layer example_env example_config ''in'' ''out'' 4 3 ''3.png'' ?s0) !
              prior_binary_masks_snapshot (last (active_futures
                (submit_layer example_env example_config ''in'' ''out'' 4 3 ''3.png'' ?s0)))) = [12]"
    and c: "heap (submit_layer example_env example_config ''in'' ''out'' 4 3 ''3.png'' ?s0) ! 0 =
            \<lparr>maxlen = Some 1, items = [13]\<rparr>"
    by (simp_all add: ex(3) tk rl ld initial_state_def deque_append_def popleft_def)
  from snapshot_holds_preceding_masks [of example_env example_config "''in''" "''3.png''" 13 103
      ?s1 "''out''" 4 3 1 "[''3.png'']"]
  have d: "heap (submit_loop example_env example_config ''in'' ''out'' 4 3 [''3.png''] ?s1) ! 1 =
           \<lparr>maxlen = None, items = [10]\<rparr>"
    by (simp add: initial_state_def)
  from a have a0: "items (heap ?r ! prior_binary_masks_snapshot (active_futures ?r ! 0)) = []"
    and a1: "items (heap ?r ! prior_binary_masks_snapshot (active_futures ?r ! 1)) = [10]"
    and a2: "items (heap ?r ! prior_binary_masks_snapshot (active_futures ?r ! 2)) = [12]"
    and a3: "prior_binary_masks_snapshot (active_futures ?r ! 2) \<noteq> prior_binary_masks_cache ?r"
    by (simp_all add: numeral_2_eq_2)
  from ex(3) ex(4) rl a0 a1 a2 a3 ld c0 b c d show ?thesis by simp
qed



text \<open>A run in folder mode in which every task returns and the user does not stop.\<close>

lemma run_when_complete:
  fixes env :: "('i, 'r) env"
  assumes li: "locate_input env cfg start_state = Returned (ip, op) s1"
    and ne: "filenames env cfg ip \<noteq> []"
    and nuv: "input_mode cfg \<noteq> ''uvtools''"
    and ok: "\<forall>k < length (active_futures (submit_phase env cfg ip op (filenames env cfg ip) s1)).
               \<exists>p. future_result env cfg
                 (submit_phase env cfg ip op (filenames env cfg ip) s1) k = Inr p"
    and ns: "\<not> stop_requested env At_final"
  shows "events (run env cfg) =
           events s1 @ layer_events env ip (length (filenames env cfg ip)) 0 (filenames env cfg ip) @
           completion_events 0 (length (filenames env cfg ip))
             (length (active_futures (submit_phase env cfg ip op (filenames env cfg ip) s1))) @
           [status_update All_tasks_completed, status_update Processing_complete, finished_signal]"
proof -
  let ?fns = "filenames env cfg ip"
  let ?s3 = "submit_phase env cfg ip op ?fns s1"
  let ?ord = "as_completed env (length (active_futures ?s3))"
  have r1: "is_running s1" using locate_input_returned(1) [OF li] by simp
  then have r3: "is_running ?s3" by simp
  have oks: "\<forall>k \<in> set ?ord. \<exists>p. future_result env cfg ?s3 k = Inr p"
    using ok by simp
  have nss: "\<forall>j' < length ?ord. \<not> stop_requested env (At_result (0 + j'))"
  proof (intro allI impI)
    fix j'
    show "\<not> stop_requested env (At_result (0 + j'))"
      using ns stop_requested_mono [of env "At_result (0 + j')" At_final] by auto
  qed
  have all: "layers_reached env 0 (length ?fns) = length ?fns"
    by (rule layers_reached_all [OF ns]) (simp add: point_le_def)
  have e3: "events ?s3 = events s1 @ layer_events env ip (length ?fns) 0 ?fns"
    by (simp add: submit_phase_events [OF r1] all)
  have len: "length ?ord = length (active_futures ?s3)"
    by (simp add: as_completed_def)
  have cp: "completion_phase env cfg (length ?fns) ?s3 =
            ?s3\<lparr>processed_count := processed_count ?s3 + length ?ord,
                events := events ?s3 @ completion_events (processed_count ?s3) (length ?fns)
                  (length ?ord)\<rparr>"
    unfolding completion_phase_def by (rule completion_loop_ok [OF r3 oks nss])
  have e2: "events (process_layers env cfg ip op ?fns s1) =
            events ?s3 @ completion_events 0 (length ?fns) (length (active_futures ?s3)) @
            [status_update All_tasks_completed]"
    unfolding process_layers_def by (simp add: emit_def cp len)
  have r2: "is_running (process_layers env cfg ip op ?fns s1)"
    unfolding process_layers_def by (simp add: emit_def cp r1)
  have "run env cfg = finally_block env cfg (process_layers env cfg ip op ?fns s1)"
    using li ne nuv by (simp add: run_def try_body_def filenames_def Let_def)
  then show ?thesis
    by (simp add: finally_block_events e2 e3 r2 ns cleanup_events_def nuv)
qed

lemma ex_order_upt: "as_completed (example_env_with u g) n = [0..<n]"
  by (simp add: as_completed_def example_env_with_def sorted_sort_id)

lemma ex_run_facts:
  fixes g :: "nat \<Rightarrow> string list \<Rightarrow> exc + nat"
  assumes li: "locate_input (example_env_with u g) (example_config_with m d) start_state =
                 Returned (ip, op) s1"
  shows "u = None \<Longrightarrow>
         length (active_futures (submit_phase (example_env_with u g) (example_config_with m d) ip op
           (filenames (example_env_with u g) (example_config_with m d) ip) s1)) = 3"
    and "u = None \<Longrightarrow> k < 3 \<Longrightarrow>
         future_result (example_env_with u g) (example_config_with m d)
           (submit_phase (example_env_with u g) (example_config_with m d) ip op
              (filenames (example_env_with u g) (example_config_with m d) ip) s1) k =
         (case g ([110, 124, 128] ! k) [] of
            Inl e \<Rightarrow> Inl e
          | Inr img \<Rightarrow> Inr (path_join op ([''0.png'', ''2.png'', ''3.png''] ! k)))"
    and "u = Some (At_submit 2) \<Longrightarrow>
         length (active_futures (submit_phase (example_env_with u g) (example_config_with m d) ip op
           (filenames (example_env_with u g) (example_config_with m d) ip) s1)) = 1"
    and "u = Some (At_submit 2) \<Longrightarrow>
         future_result (example_env_with u g) (example_config_with m d)
           (submit_phase (example_env_with u g) (example_config_with m d) ip op
              (filenames (example_env_with u g) (example_config_with m d) ip) s1) 0 =
         (case g 110 [] of Inl e \<Rightarrow> Inl e | Inr img \<Rightarrow> Inr (path_join op ''0.png''))"
proof -
  have h: "heap s1 = []" and r: "is_running s1"
    using locate_input_returned(1,2) [OF li] by (simp_all add: start_state_simps)
  note sub = ex_submitted [OF h r, of g m d ip op]
  note stop = ex_submitted_stop [OF h r, of g m d ip op]
  show "u = None \<Longrightarrow>
         length (active_futures (submit_phase (example_env_with u g) (example_config_with m d) ip op
           (filenames (example_env_with u g) (example_config_with m d) ip) s1)) = 3"
    by (simp add: ex_filenames sub example_futures_def)
  show "u = None \<Longrightarrow> k < 3 \<Longrightarrow>
         future_result (example_env_with u g) (example_config_with m d)
           (submit_phase (example_env_with u g) (example_config_with m d) ip op
              (filenames (example_env_with u g) (example_config_with m d) ip) s1) k =
         (case g ([110, 124, 128] ! k) [] of
            Inl e \<Rightarrow> Inl e
          | Inr img \<Rightarrow> Inr (path_join op ([''0.png'', ''2.png'', ''3.png''] ! k)))"
    by (rule ex_result) (simp_all add: ex_filenames sub)
  show "u = Some (At_submit 2) \<Longrightarrow>
         length (active_futures (submit_phase (example_env_with u g) (example_config_with m d) ip op
           (filenames (example_env_with u g) (example_config_with m d) ip) s1)) = 1"
    by (simp add: ex_filenames stop example_futures_def)
  show "u = Some (At_submit 2) \<Longrightarrow>
         future_result (example_env_with u g) (example_config_with m d)
           (submit_phase (example_env_with u g) (example_config_with m d) ip op
              (filenames (example_env_with u g) (example_config_with m d) ip) s1) 0 =
         (case g 110 [] of Inl e \<Rightarrow> Inl e | Inr img \<Rightarrow> Inr (path_join op ''0.png''))"
    using ex_result [of _ 0 ip op u g m d]
    by (simp add: ex_filenames stop example_futures_def cong: sum.case_cong)
qed

lemma ex_complete:
  fixes m :: string and d :: bool and ip op :: string and s1 :: "(nat, nat) state"
  defines "cfg \<equiv> example_config_with m d"
  defines "s3 \<equiv> submit_phase example_env (example_config_with m d) ip op
                   (filenames example_env (example_config_with m d) ip) s1"
  assumes li: "locate_input example_env cfg start_state = Returned (ip, op) s1"
  shows "filenames example_env cfg ip = [''0.png'', ''1.png'', ''2.png'', ''3.png'']"
    and "length (active_futures s3) = 3"
    and "\<forall>k < length (active_futures s3). \<exists>p. future_result example_env cfg s3 k = Inr p"
    and "\<not> stop_requested example_env pt"
    and "filter (loadable example_env ip) (filenames example_env cfg ip) =
         [''0.png'', ''2.png'', ''3.png'']"
    and "layers_reached example_env 0 n = n"
proof -
  note facts = ex_run_facts [OF li [unfolded cfg_def example_env_def]]
  show "filenames example_env cfg ip = [''0.png'', ''1.png'', ''2.png'', ''3.png'']"
    by (simp add: cfg_def example_env_def ex_filenames)
  show "length (active_futures s3) = 3"
    using facts(1) by (simp add: s3_def example_env_def)
  show "\<forall>k < length (active_futures s3). \<exists>p. future_result example_env cfg s3 k = Inr p"
    using facts(1,2) by (simp add: s3_def cfg_def example_env_def)
  show "\<not> stop_requested example_env pt"
    by (simp add: stop_requested_def example_env_def example_env_with_def)
  show "filter (loadable example_env ip) (filenames example_env cfg ip) =
         [''0.png'', ''2.png'', ''3.png'']"
    by (simp add: cfg_def example_env_def ex_filenames ex_loadable)
  show "layers_reached example_env 0 n = n"
    by (simp add: layers_reached_def example_env_def example_env_with_def)
qed

lemma ex_failing:
  fixes m :: string and d :: bool and ip op :: string and s1 :: "(nat, nat) state"
  defines "cfg \<equiv> example_config_with m d"
  defines "s3 \<equiv> submit_phase failing_env (example_config_with m d) ip op
                   (filenames failing_env (example_config_with m d) ip) s1"
  defines "order \<equiv> as_completed failing_env (length (active_futures s3))"
  assumes li: "locate_input failing_env cfg start_state = Returned (ip, op) s1"
  shows "filenames failing_env cfg ip \<noteq> []"
    and "1 < length order"
    and "\<forall>j' < 1. \<exists>p. future_result failing_env cfg s3 (order ! j') = Inr p"
    and "future_result failing_env cfg s3 (order ! 1) = Inl (Exception ''boom'' ''tb'')"
    and "\<not> stop_requested failing_env pt"
    and "length (active_futures s3) = 3"
    and "order = [0, 1, 2]"
    and "future_result failing_env cfg s3 0 = Inr (path_join op ''0.png'')"
    and "future_result failing_env cfg s3 2 = Inr (path_join op ''3.png'')"
    and "pending_at_cancel failing_env k"
proof -
  note facts = ex_run_facts [OF li [unfolded cfg_def failing_env_def]]
  show "filenames failing_env cfg ip \<noteq> []"
    by (simp add: cfg_def failing_env_def ex_filenames)
  show len: "length (active_futures s3) = 3"
    using facts(1) by (simp add: s3_def failing_env_def)
  show ord: "order = [0, 1, 2]"
    by (simp add: order_def len) (simp add: failing_env_def ex_order)
  show "1 < length order" by (simp add: ord)
  show "\<forall>j' < 1. \<exists>p. future_result failing_env cfg s3 (order ! j') = Inr p"
    using facts(2) [of 0] by (simp add: ord s3_def cfg_def failing_env_def)
  show "future_result failing_env cfg s3 (order ! 1) = Inl (Exception ''boom'' ''tb'')"
    using facts(2) [of 1] by (simp add: ord s3_def cfg_def failing_env_def)
  show "\<not> stop_requested failing_env pt"
    by (simp add: stop_requested_def failing_env_def example_env_with_def)
  show "future_result failing_env cfg s3 0 = Inr (path_join op ''0.png'')"
    using facts(2) [of 0] by (simp add: s3_def cfg_def failing_env_def)
  show "future_result failing_env cfg s3 2 = Inr (path_join op ''3.png'')"
    using facts(2) [of 2] by (simp add: s3_def cfg_def failing_env_def)
  show "pending_at_cancel failing_env k"
    by (simp add: failing_env_def example_env_with_def)
qed

lemma ex_stopping:
  fixes m :: string and d :: bool and ip op :: string and s1 :: "(nat, nat) state"
  defines "cfg \<equiv> example_config_with m d"
  defines "s3 \<equiv> submit_phase stopping_env (example_config_with m d) ip op
                   (filenames stopping_env (example_config_with m d) ip) s1"
  assumes li: "locate_input stopping_env cfg start_state = Returned (ip, op) s1"
  shows "user_stop stopping_env = Some (At_submit 2)"
    and "2 < length (filenames stopping_env cfg ip)"
    and "length (active_futures s3) = 1"
    and "future_result stopping_env cfg s3 0 = Inr (path_join op ''0.png'')"
    and "filter (loadable stopping_env ip) (take 2 (filenames stopping_env cfg ip)) = [''0.png'']"
proof -
  note facts = ex_run_facts [OF li [unfolded cfg_def stopping_env_def]]
  show "user_stop stopping_env = Some (At_submit 2)"
    by (simp add: stopping_env_def example_env_with_def)
  show "2 < length (filenames stopping_env cfg ip)"
    by (simp add: cfg_def stopping_env_def ex_filenames)
  show "length (active_futures s3) = 1"
    using facts(3) by (simp add: s3_def stopping_env_def)
  show "future_result stopping_env cfg s3 0 = Inr (path_join op ''0.png'')"
    using facts(4) by (simp add: s3_def cfg_def stopping_env_def)
  show "filter (loadable stopping_env ip) (take 2 (filenames stopping_env cfg ip)) = [''0.png'']"
    by (simp add: cfg_def stopping_env_def ex_filenames ex_loadable numeral_2_eq_2)
qed

lemma ex_paths:
  "removes_temp (example_env_with u g) (example_config_with ''uvtools'' True) ''tmp/p_T''"
  "\<not> removes_temp env (example_config_with ''folder'' d) folder"
  "\<not> removes_temp env (example_config_with m False) folder"
  "below ''tmp/p_T'' (path_join ''tmp/p_T/Output'' ''0.png'')"
  "input_mode (example_config_with m d) = m"
  by (simp_all add: removes_temp_def below_def path_join_def example_env_with_def
      example_config_with_def)

theorem repack_only_when_completed_witness:
  "input_mode (example_config_with ''uvtools'' False) = ''uvtools'' \<and>
   \<not> stop_requested example_env At_repack \<and>
   repack_call ''tmp/p_T/Output'' \<in>
     set (events (run example_env (example_config_with ''uvtools'' False))) \<and>
   (\<forall>e. error_signal (Task_failed e) \<notin>
      set (events (run example_env (example_config_with ''uvtools'' False)))) \<and>
   stop_requested stopping_env At_repack \<and>
   (\<forall>f. repack_call f \<notin>
      set (events (run stopping_env (example_config_with ''uvtools'' False)))) \<and>
   error_signal (Task_failed (Exception ''boom'' ''tb'')) \<in>
     set (events (run failing_env (example_config_with ''uvtools'' False))) \<and>
   (\<forall>f. repack_call f \<notin>
      set (events (run failing_env (example_config_with ''uvtools'' False))))"
proof -
  let ?cfg = "example_config_with ''uvtools'' False"
  let ?ip = "''tmp/p_T/Input''" and ?op = "''tmp/p_T/Output''"
  have uv: "input_mode ?cfg = ''uvtools''" by (simp add: ex_paths)
  obtain s1 where li: "locate_input example_env ?cfg start_state = Returned (?ip, ?op) s1"
    using ex_located_uvtools [of None "\<lambda>i ops. Inr i" False] by (auto simp: example_env_def)
  note ok = ex_complete [OF li]
  have ne: "filenames example_env ?cfg ?ip \<noteq> []" by (simp add: ok(1))
  note complete = repack_only_when_completed [where env = example_env and cfg = ?cfg
      and ip = ?ip and op = ?op and ?s1.0 = s1 and f = ?op]
  from complete uv li ne ok(3) ok(4) [of At_repack]
  have a: "repack_call ?op \<in> set (events (run example_env ?cfg))" by blast
  with complete
  have b: "\<forall>e. error_signal (Task_failed e) \<notin> set (events (run example_env ?cfg))" by blast
  have st: "stop_requested stopping_env At_repack"
    by (simp add: stop_requested_def stopping_env_def example_env_with_def point_le_def)
  with repack_only_when_completed [where env = stopping_env and cfg = ?cfg]
  have c: "\<forall>f. repack_call f \<notin> set (events (run stopping_env ?cfg))" by blast
  obtain s1' where li': "locate_input failing_env ?cfg start_state = Returned (?ip, ?op) s1'"
    using ex_located_uvtools [of None _ False] by (auto simp: failing_env_def)
  note bad = ex_failing [OF li']
  have d: "error_signal (Task_failed (Exception ''boom'' ''tb'')) \<in>
           set (events (run failing_env ?cfg))"
    using run_when_failed(1) [OF li' bad(1) bad(2) bad(3) bad(4) bad(5)] by simp
  with repack_only_when_completed [where env = failing_env and cfg = ?cfg
      and e = "Exception ''boom'' ''tb''"]
  have e: "\<forall>f. repack_call f \<notin> set (events (run failing_env ?cfg))" by blast
  from uv ok(4) [of At_repack] a b st c d e show ?thesis by blast
qed

end
